theory Spec2Isabelle
  imports Main "HOL-Library.Sublist" "HOL-Library.List_Lexorder"
begin


section \<open>Python strings\<close>

text \<open>
  A Python \<open>str\<close> is a sequence of Unicode code points; it is modelled as a list of
  natural numbers, one per code point. Comparison of such lists (\<open>List_Lexorder\<close>) is
  the lexicographic comparison by code point that Python uses for \<open>str\<close>.
  ASCII literals of the script are written with \<open>ascii\<close>; the few non-ASCII literals
  are given by their code points.
\<close>

type_synonym pystr = "nat list"

definition ascii :: "string \<Rightarrow> pystr" where
  "ascii s = map of_char s"

text \<open>
  \<open>str.isspace\<close> for one code point. Both \<open>str.strip()\<close> and the class \<open>\s\<close> of a
  \<open>str\<close> pattern use this set.
\<close>

definition is_space :: "nat \<Rightarrow> bool" where
  "is_space c \<longleftrightarrow>
     (9 \<le> c \<and> c \<le> 13) \<or> (28 \<le> c \<and> c \<le> 32) \<or> c = 133 \<or> c = 160 \<or> c = 5760 \<or>
     (8192 \<le> c \<and> c \<le> 8202) \<or> c = 8232 \<or> c = 8233 \<or> c = 8239 \<or> c = 8287 \<or>
     c = 12288"

definition lstrip :: "pystr \<Rightarrow> pystr" where
  "lstrip s = dropWhile is_space s"

definition rstrip :: "pystr \<Rightarrow> pystr" where
  "rstrip s = rev (dropWhile is_space (rev s))"

definition strip :: "pystr \<Rightarrow> pystr" where
  "strip s = rstrip (lstrip s)"

text \<open>Truthiness of a \<open>str\<close> and of an \<open>Optional[str]\<close>.\<close>

definition truthy :: "pystr \<Rightarrow> bool" where
  "truthy s \<longleftrightarrow> s \<noteq> []"

definition truthy_opt :: "pystr option \<Rightarrow> bool" where
  "truthy_opt r = (case r of None \<Rightarrow> False | Some s \<Rightarrow> truthy s)"

definition startswith :: "pystr \<Rightarrow> pystr \<Rightarrow> bool" where
  "startswith s p = prefix p s"

definition endswith :: "pystr \<Rightarrow> pystr \<Rightarrow> bool" where
  "endswith s p = suffix p s"

text \<open>\<open>sep.join(xs)\<close>.\<close>

fun join :: "pystr \<Rightarrow> pystr list \<Rightarrow> pystr" where
  "join sep [] = []"
| "join sep [x] = x"
| "join sep (x # y # ys) = x @ sep @ join sep (y # ys)"

text \<open>
  The errors the script can end with. The two \<open>RuntimeError\<close>s and the \<open>SystemExit\<close>
  carry fixed messages, named here by what they say. \<open>ValueError\<close> is what
  \<open>str.index\<close> raises when the substring is absent; \<open>IsADirectoryError\<close> is what
  reading a path that is a directory raises.
\<close>

datatype error =
    RuntimeError_MarkersNotFound
  | RuntimeError_MarkerOrder
  | SystemExit_ReadmeNotFound
  | ValueError
  | IsADirectoryError

text \<open>\<open>sub in s\<close> and \<open>s.index(sub)\<close>: the lowest index at which \<open>sub\<close> starts.\<close>

fun str_contains :: "pystr \<Rightarrow> pystr \<Rightarrow> bool" where
  "str_contains [] sub = (sub = [])"
| "str_contains (c # cs) sub = (prefix sub (c # cs) \<or> str_contains cs sub)"

fun str_index :: "pystr \<Rightarrow> pystr \<Rightarrow> error + nat" where
  "str_index [] sub = (if sub = [] then Inr 0 else Inl ValueError)"
| "str_index (c # cs) sub =
     (if prefix sub (c # cs) then Inr 0
      else (case str_index cs sub of Inl e \<Rightarrow> Inl e | Inr i \<Rightarrow> Inr (Suc i)))"

text \<open>
  \<open>str.splitlines()\<close>: lines are ended by LF, CR, CR LF, VT, FF, FS, GS, RS, NEL,
  LS and PS; the terminators are dropped and a final terminator opens no further line.
\<close>

definition is_linebreak :: "nat \<Rightarrow> bool" where
  "is_linebreak c \<longleftrightarrow>
     c = 10 \<or> c = 11 \<or> c = 12 \<or> c = 13 \<or> c = 28 \<or> c = 29 \<or> c = 30 \<or> c = 133 \<or>
     c = 8232 \<or> c = 8233"

fun splitlines_from :: "pystr \<Rightarrow> pystr \<Rightarrow> pystr list" where
  "splitlines_from cur [] = (if cur = [] then [] else [cur])"
| "splitlines_from cur [c] =
     (if is_linebreak c then [cur] else [cur @ [c]])"
| "splitlines_from cur (c # d # cs) =
     (if c = 13 \<and> d = 10 then cur # splitlines_from [] cs
      else if is_linebreak c then cur # splitlines_from [] (d # cs)
      else splitlines_from (cur @ [c]) (d # cs))"

definition splitlines :: "pystr \<Rightarrow> pystr list" where
  "splitlines s = splitlines_from [] s"

text \<open>
  Reading a file in text mode with the default \<open>newline=None\<close>, as
  \<open>Path.read_text\<close> does, turns CR LF and a lone CR into LF.
\<close>

fun universal_newlines :: "pystr \<Rightarrow> pystr" where
  "universal_newlines [] = []"
| "universal_newlines [c] = (if c = 13 then [10] else [c])"
| "universal_newlines (c # d # cs) =
     (if c = 13 \<and> d = 10 then 10 # universal_newlines cs
      else if c = 13 then 10 # universal_newlines (d # cs)
      else c # universal_newlines (d # cs))"

section \<open>Regular expressions\<close>

text \<open>
  The three patterns of the script use literals, character classes under \<open>*\<close>, \<open>+\<close>
  and the lazy \<open>+?\<close>, optional literals, capture groups and the anchors \<open>^\<close> and
  \<open>$\<close>. A pattern is a list of such items, and \<open>re_run\<close> is the backtracking search of
  Python's \<open>re\<close>: a greedy repetition tries the longest run first, a lazy one the
  shortest, an optional literal is tried present before absent, and the first
  alternative that lets the rest of the pattern match decides the groups.
  \<open>X+\<close> is written \<open>One X, Star X\<close> and \<open>X+?\<close> is \<open>One X, LazyStar X\<close>.
\<close>

datatype re_item =
    Lit nat
  | One "nat \<Rightarrow> bool"
  | Star "nat \<Rightarrow> bool"
  | LazyStar "nat \<Rightarrow> bool"
  | OptLit pystr
  | GroupOpen nat
  | GroupClose nat
  | Bol
  | Eol

text \<open>
  The state of a match: for each group the input that was left when it opened, and
  the text of each closed group.
\<close>

record re_state =
  opened :: "(nat \<times> pystr) list"
  groups :: "(nat \<times> pystr) list"

definition re_init :: re_state where
  "re_init = \<lparr>opened = [], groups = []\<rparr>"

definition close_group :: "nat \<Rightarrow> pystr \<Rightarrow> re_state \<Rightarrow> re_state" where
  "close_group n s st =
     (case map_of (opened st) n of
        None \<Rightarrow> st
      | Some s0 \<Rightarrow> st\<lparr>groups := (n, take (length s0 - length s) s0) # groups st\<rparr>)"

text \<open>
  \<open>re_run whole items s st\<close> matches \<open>items\<close> against the rest \<open>s\<close> of the input
  \<open>whole\<close>. \<open>^\<close> holds at the start of the input; \<open>$\<close> (without \<open>re.MULTILINE\<close>)
  holds at the end and before a final LF.
\<close>

fun re_run :: "pystr \<Rightarrow> re_item list \<Rightarrow> pystr \<Rightarrow> re_state \<Rightarrow> re_state option" where
  "re_run whole [] s st = Some st"
| "re_run whole (Lit c # r) s st =
     (case s of [] \<Rightarrow> None | x # xs \<Rightarrow> if x = c then re_run whole r xs st else None)"
| "re_run whole (One cls # r) s st =
     (case s of [] \<Rightarrow> None | x # xs \<Rightarrow> if cls x then re_run whole r xs st else None)"
| "re_run whole (Star cls # r) s st =
     (case s of
        [] \<Rightarrow> re_run whole r s st
      | x # xs \<Rightarrow>
          if cls x then
            (case re_run whole (Star cls # r) xs st of
               Some st' \<Rightarrow> Some st'
             | None \<Rightarrow> re_run whole r s st)
          else re_run whole r s st)"
| "re_run whole (LazyStar cls # r) s st =
     (case re_run whole r s st of
        Some st' \<Rightarrow> Some st'
      | None \<Rightarrow>
          (case s of
             [] \<Rightarrow> None
           | x # xs \<Rightarrow> if cls x then re_run whole (LazyStar cls # r) xs st else None))"
| "re_run whole (OptLit l # r) s st =
     (if prefix l s then
        (case re_run whole r (drop (length l) s) st of
           Some st' \<Rightarrow> Some st'
         | None \<Rightarrow> re_run whole r s st)
      else re_run whole r s st)"
| "re_run whole (GroupOpen n # r) s st =
     re_run whole r s (st\<lparr>opened := (n, s) # opened st\<rparr>)"
| "re_run whole (GroupClose n # r) s st =
     re_run whole r s (close_group n s st)"
| "re_run whole (Bol # r) s st =
     (if length s = length whole then re_run whole r s st else None)"
| "re_run whole (Eol # r) s st =
     (if s = [] \<or> s = [10] then re_run whole r s st else None)"

text \<open>\<open>re.match(pattern, s)\<close>: the match starts at index 0.\<close>

definition re_match :: "re_item list \<Rightarrow> pystr \<Rightarrow> re_state option" where
  "re_match items s = re_run s items s re_init"

definition group :: "re_state \<Rightarrow> nat \<Rightarrow> pystr" where
  "group st n = (case map_of (groups st) n of None \<Rightarrow> [] | Some g \<Rightarrow> g)"

text \<open>The character classes \<open>\s\<close>, \<open>.\<close> (anything but LF) and \<open>[^/]\<close>.\<close>

definition cls_space :: "nat \<Rightarrow> bool" where
  "cls_space c = is_space c"

definition cls_dot :: "nat \<Rightarrow> bool" where
  "cls_dot c \<longleftrightarrow> c \<noteq> 10"

definition cls_not_slash :: "nat \<Rightarrow> bool" where
  "cls_not_slash c \<longleftrightarrow> c \<noteq> 47"

definition lits :: "string \<Rightarrow> re_item list" where
  "lits s = map Lit (ascii s)"

section \<open>The script\<close>

text \<open>
  The definitions below follow \<open>scripts/update_readme.py\<close>. Each function keeps its
  name without the leading underscore; what the script reads from outside (files,
  environment, git, clock) is a field of \<open>world\<close>, and a raised exception is the \<open>Inl\<close>
  of a sum.
\<close>

subsection \<open>Constants and data\<close>

definition BEGIN_MARKER :: pystr where
  "BEGIN_MARKER = ascii ''<!-- ZIKUU_NOTEBOOKS_LIST:BEGIN -->''"

definition END_MARKER :: pystr where
  "END_MARKER = ascii ''<!-- ZIKUU_NOTEBOOKS_LIST:END -->''"

definition EXCLUDE_DIRS :: "pystr set" where
  "EXCLUDE_DIRS =
     {ascii ''.git'', ascii ''.github'', ascii ''__pycache__'', ascii ''.venv'',
      ascii ''venv'', ascii ''node_modules'', ascii ''scripts'', ascii ''.idea'',
      ascii ''.vscode''}"

record NotebookItem =
  module_dir :: pystr
  module_title :: pystr
  notebooks :: "pystr list"

subsection \<open>The world the script runs in\<close>

text \<open>
  A directory is the list of its entries in the order \<open>iterdir\<close> yields them; a
  regular file is its decoded content. File names and contents are taken to be text
  that encodes as UTF-8, and every path to be readable and writable.
\<close>

datatype fsnode = File pystr | Dir "(pystr \<times> fsnode) list"

fun is_dir :: "fsnode \<Rightarrow> bool" where
  "is_dir (Dir _) = True"
| "is_dir (File _) = False"

fun is_file :: "fsnode \<Rightarrow> bool" where
  "is_file (File _) = True"
| "is_file (Dir _) = False"

text \<open>The three lines \<open>main\<close> can print, named by what they say.\<close>

datatype console_line = Msg_NoUpdateNeeded | Msg_Updated | Msg_NoteSetRepo

text \<open>
  \<open>fs_root\<close> is the repository root. \<open>git_stdout args\<close> is the decoded output of
  \<open>git args\<close>, or \<open>None\<close> when running it raises; \<open>git_calls\<close> records each
  invocation. \<open>now_utc\<close> is the clock, already formatted as
  \<open>%Y-%m-%d %H:%M:%SZ\<close>.
\<close>

record world =
  fs_root :: "(pystr \<times> fsnode) list"
  environ :: "pystr \<rightharpoonup> pystr"
  git_stdout :: "pystr list \<Rightarrow> pystr option"
  git_calls :: "pystr list list"
  now_utc :: pystr
  console :: "console_line list"

definition README_NAME :: pystr where
  "README_NAME = ascii ''README.md''"

definition read_text :: "fsnode \<Rightarrow> error + pystr" where
  "read_text node =
     (case node of
        File content \<Rightarrow> Inr (universal_newlines content)
      | Dir _ \<Rightarrow> Inl IsADirectoryError)"

text \<open>
  \<open>path.write_text(text, encoding="utf-8", newline="\n")\<close> for a path directly under
  the root: the text is stored as it is.
\<close>

definition write_text :: "pystr \<Rightarrow> pystr \<Rightarrow> (pystr \<times> fsnode) list \<Rightarrow> error + (pystr \<times> fsnode) list" where
  "write_text name text entries =
     (case map_of entries name of
        None \<Rightarrow> Inr (entries @ [(name, File text)])
      | Some (Dir _) \<Rightarrow> Inl IsADirectoryError
      | Some (File _) \<Rightarrow>
          Inr (map (\<lambda>(n, x). if n = name \<and> is_file x then (n, File text) else (n, x)) entries))"

definition print :: "console_line \<Rightarrow> world \<Rightarrow> world" where
  "print l w = w\<lparr>console := console w @ [l]\<rparr>"

subsection \<open>Module titles and module enumeration\<close>

text \<open>The pattern \<^verbatim>\<open>^\s*#\s+(.+?)\s*$\<close>.\<close>

definition H1_PATTERN :: "re_item list" where
  "H1_PATTERN =
     [Bol, Star cls_space, Lit 35, One cls_space, Star cls_space,
      GroupOpen 1, One cls_dot, LazyStar cls_dot, GroupClose 1,
      Star cls_space, Eol]"

fun first_h1_lines :: "pystr list \<Rightarrow> pystr option" where
  "first_h1_lines [] = None"
| "first_h1_lines (line # rest) =
     (case re_match H1_PATTERN line of
        Some m \<Rightarrow> Some (strip (group m 1))
      | None \<Rightarrow> first_h1_lines rest)"

text \<open>
  \<open>_first_h1_from_readme\<close>; the argument is what the path \<open>readme_path\<close> names, if
  anything.
\<close>

definition first_h1_from_readme :: "fsnode option \<Rightarrow> error + pystr option" where
  "first_h1_from_readme readme_path =
     (case readme_path of
        None \<Rightarrow> Inr None
      | Some node \<Rightarrow>
          (case read_text node of
             Inl e \<Rightarrow> Inl e
           | Inr text \<Rightarrow> Inr (first_h1_lines (splitlines text))))"

text \<open>\<open>sorted([f.name for f in p.glob("*.ipynb") if f.is_file()])\<close>.\<close>

definition ipynb_names :: "(pystr \<times> fsnode) list \<Rightarrow> pystr list" where
  "ipynb_names children =
     sort (map fst (filter (\<lambda>(n, x). endswith n (ascii ''.ipynb'') \<and> is_file x) children))"

text \<open>\<open>x or y\<close> for an optional string \<open>x\<close>.\<close>

definition or_else :: "pystr option \<Rightarrow> pystr \<Rightarrow> pystr" where
  "or_else x y = (case x of None \<Rightarrow> y | Some s \<Rightarrow> if truthy s then s else y)"

fun list_modules_loop :: "(pystr \<times> fsnode) list \<Rightarrow> NotebookItem list \<Rightarrow> error + NotebookItem list" where
  "list_modules_loop [] items = Inr items"
| "list_modules_loop ((name, File content) # ps) items = list_modules_loop ps items"
| "list_modules_loop ((name, Dir children) # ps) items =
     (if name \<in> EXCLUDE_DIRS then list_modules_loop ps items
      else if startswith name (ascii ''.'') then list_modules_loop ps items
      else if ipynb_names children = [] then list_modules_loop ps items
      else
        (case first_h1_from_readme (map_of children README_NAME) of
           Inl e \<Rightarrow> Inl e
         | Inr h1 \<Rightarrow>
             list_modules_loop ps
               (items @ [\<lparr>module_dir = name, module_title = or_else h1 name,
                          notebooks = ipynb_names children\<rparr>])))"

definition list_modules :: "(pystr \<times> fsnode) list \<Rightarrow> error + NotebookItem list" where
  "list_modules repo_root = list_modules_loop (sort_key fst repo_root) []"

subsection \<open>Repository identifier\<close>

definition run_git :: "pystr list \<Rightarrow> world \<Rightarrow> pystr option \<times> world" where
  "run_git args w =
     (map_option strip (git_stdout w args), w\<lparr>git_calls := git_calls w @ [args]\<rparr>)"

text \<open>
  The patterns \<^verbatim>\<open>^https?://github\.com/([^/]+)/([^/]+?)(?:\.git)?/?$\<close> and
  \<^verbatim>\<open>^git@github\.com:([^/]+)/([^/]+?)(?:\.git)?$\<close>.
\<close>

definition HTTPS_PATTERN :: "re_item list" where
  "HTTPS_PATTERN =
     [Bol] @ lits ''http'' @ [OptLit (ascii ''s'')] @ lits ''://github.com/'' @
     [GroupOpen 1, One cls_not_slash, Star cls_not_slash, GroupClose 1, Lit 47,
      GroupOpen 2, One cls_not_slash, LazyStar cls_not_slash, GroupClose 2,
      OptLit (ascii ''.git''), OptLit (ascii ''/''), Eol]"

definition SSH_PATTERN :: "re_item list" where
  "SSH_PATTERN =
     [Bol] @ lits ''git@github.com:'' @
     [GroupOpen 1, One cls_not_slash, Star cls_not_slash, GroupClose 1, Lit 47,
      GroupOpen 2, One cls_not_slash, LazyStar cls_not_slash, GroupClose 2,
      OptLit (ascii ''.git''), Eol]"

definition parse_github_repo_from_remote :: "pystr \<Rightarrow> pystr option" where
  "parse_github_repo_from_remote remote_url0 =
     (let remote_url = strip remote_url0 in
      case re_match HTTPS_PATTERN remote_url of
        Some m \<Rightarrow> Some (group m 1 @ ascii ''/'' @ group m 2)
      | None \<Rightarrow>
          (case re_match SSH_PATTERN remote_url of
             Some m \<Rightarrow> Some (group m 1 @ ascii ''/'' @ group m 2)
           | None \<Rightarrow> None))"

definition getenv :: "world \<Rightarrow> pystr \<Rightarrow> pystr \<Rightarrow> pystr" where
  "getenv w name dflt = (case environ w name of None \<Rightarrow> dflt | Some v \<Rightarrow> v)"

definition GIT_REMOTE_ARGS :: "pystr list" where
  "GIT_REMOTE_ARGS = [ascii ''config'', ascii ''--get'', ascii ''remote.origin.url'']"

definition detect_github_repo :: "world \<Rightarrow> pystr option \<times> world" where
  "detect_github_repo w =
     (let env_repo = strip (getenv w (ascii ''ZIKUU_GITHUB_REPO'') []) in
      if truthy env_repo then (Some env_repo, w)
      else
        (case run_git GIT_REMOTE_ARGS w of
           (remote, w') \<Rightarrow>
             if truthy_opt remote then
               (let parsed = parse_github_repo_from_remote (or_else remote []) in
                if truthy_opt parsed then (parsed, w') else (None, w'))
             else (None, w')))"

subsection \<open>Rendering\<close>

definition colab_link :: "pystr \<Rightarrow> pystr \<Rightarrow> pystr" where
  "colab_link github_repo notebook_path =
     ascii ''https://colab.research.google.com/github/'' @ github_repo @
     ascii ''/blob/'' @ ascii ''main'' @ ascii ''/'' @ notebook_path"

text \<open>The fixed texts of the block, by code point.\<close>

definition NO_NOTEBOOKS_LINE :: pystr where
  "NO_NOTEBOOKS_LINE =
     [45, 32, 65288, 12414, 12384, 78, 111, 116, 101, 98, 111, 111, 107, 12364, 12354,
      12426, 12414, 12379, 12435, 65289, 10]"

definition UPDATED_PREFIX :: pystr where
  "UPDATED_PREFIX = [26356, 26032, 58, 32]"

definition FALLBACK_NOTE :: pystr where
  "FALLBACK_NOTE =
     [65288, 67, 111, 108, 97, 98, 12522, 12531, 12463, 29983, 25104, 12395, 12399, 32,
      90, 73, 75, 85, 85, 95, 71, 73, 84, 72, 85, 66, 95, 82, 69, 80, 79, 32, 12398,
      35373, 23450, 12364, 24517, 35201, 65289]"

fun render_notebooks :: "pystr option \<Rightarrow> pystr \<Rightarrow> pystr list \<Rightarrow> pystr list \<Rightarrow> pystr list" where
  "render_notebooks github_repo dir [] lines = lines"
| "render_notebooks github_repo dir (nb # nbs) lines =
     (let rel_path = dir @ ascii ''/'' @ nb in
      if truthy_opt github_repo then
        (let colab = colab_link (or_else github_repo []) rel_path in
         render_notebooks github_repo dir nbs
           (lines @ [ascii ''  - ['' @ nb @ ascii '']('' @ colab @ ascii '')'']))
      else
        render_notebooks github_repo dir nbs
          (lines @ [ascii ''  - `'' @ nb @ ascii ''`'' @ FALLBACK_NOTE]))"

fun render_items :: "pystr option \<Rightarrow> NotebookItem list \<Rightarrow> pystr list \<Rightarrow> pystr list" where
  "render_items github_repo [] lines = lines"
| "render_items github_repo (it # its) lines =
     (let module_link = ascii ''./'' @ module_dir it @ ascii ''/'';
          lines1 = lines @ [ascii ''- **['' @ module_title it @ ascii '']('' @ module_link @ ascii '')**''];
          lines2 = render_notebooks github_repo (module_dir it) (notebooks it) lines1
      in render_items github_repo its (lines2 @ [[]]))"

definition render_list :: "pystr \<Rightarrow> NotebookItem list \<Rightarrow> pystr option \<Rightarrow> pystr" where
  "render_list now items github_repo =
     (if items = [] then NO_NOTEBOOKS_LINE
      else
        (let lines = render_items github_repo items [UPDATED_PREFIX @ now @ [10]]
         in rstrip (join [10] lines) @ [10]))"

subsection \<open>Marker substitution and the run\<close>

definition replace_between_markers :: "pystr \<Rightarrow> pystr \<Rightarrow> error + pystr" where
  "replace_between_markers readme_text new_block =
     (if \<not> str_contains readme_text BEGIN_MARKER \<or> \<not> str_contains readme_text END_MARKER
      then Inl RuntimeError_MarkersNotFound
      else
        (case str_index readme_text BEGIN_MARKER of
           Inl e \<Rightarrow> Inl e
         | Inr i \<Rightarrow>
             (let begin_idx = i + length BEGIN_MARKER in
              case str_index readme_text END_MARKER of
                Inl e \<Rightarrow> Inl e
              | Inr end_idx \<Rightarrow>
                  if end_idx < begin_idx then Inl RuntimeError_MarkerOrder
                  else
                    (let before = take begin_idx readme_text;
                         after = drop end_idx readme_text
                     in Inr (before @ [10] @ new_block @ after)))))"

definition main :: "world \<Rightarrow> (error + unit) \<times> world" where
  "main w =
     (case map_of (fs_root w) README_NAME of
        None \<Rightarrow> (Inl SystemExit_ReadmeNotFound, w)
      | Some readme_node \<Rightarrow>
          (case detect_github_repo w of
             (github_repo, w1) \<Rightarrow>
               (case list_modules (fs_root w1) of
                  Inl e \<Rightarrow> (Inl e, w1)
                | Inr items \<Rightarrow>
                    (let new_block = render_list (now_utc w1) items github_repo in
                     case read_text readme_node of
                       Inl e \<Rightarrow> (Inl e, w1)
                     | Inr original \<Rightarrow>
                         (case replace_between_markers original new_block of
                            Inl e \<Rightarrow> (Inl e, w1)
                          | Inr updated \<Rightarrow>
                              if updated = original then (Inr (), print Msg_NoUpdateNeeded w1)
                              else
                                (case write_text README_NAME updated (fs_root w1) of
                                   Inl e \<Rightarrow> (Inl e, w1)
                                 | Inr entries \<Rightarrow>
                                     (let w2 = print Msg_Updated (w1\<lparr>fs_root := entries\<rparr>) in
                                      if \<not> truthy_opt github_repo
                                      then (Inr (), print Msg_NoteSetRepo w2)
                                      else (Inr (), w2))))))))"

section \<open>Occurrences of a substring\<close>

text \<open>
  \<open>sub\<close> occurs in \<open>s\<close> at index \<open>i\<close>; \<open>i\<close> is the first such index; \<open>sub\<close> occurs
  somewhere in \<open>s\<close>. The properties of \<open>str_contains\<close>, \<open>str_index\<close> and of the marker
  substitution are stated with these.
\<close>

definition occurs_at :: "pystr \<Rightarrow> pystr \<Rightarrow> nat \<Rightarrow> bool" where
  "occurs_at sub s i \<longleftrightarrow> i \<le> length s \<and> prefix sub (drop i s)"

definition first_occurrence :: "pystr \<Rightarrow> pystr \<Rightarrow> nat \<Rightarrow> bool" where
  "first_occurrence sub s i \<longleftrightarrow> occurs_at sub s i \<and> (\<forall>j\<in>{0..<i}. \<not> occurs_at sub s j)"

definition occurs :: "pystr \<Rightarrow> pystr \<Rightarrow> bool" where
  "occurs sub s \<longleftrightarrow> (\<exists>i\<in>{0..length s}. occurs_at sub s i)"

section \<open>Directory listings and headings\<close>

text \<open>
  What every directory listing satisfies: the names are not empty and no two entries
  have the same name.
\<close>

definition wf_listing :: "(pystr \<times> fsnode) list \<Rightarrow> bool" where
  "wf_listing entries \<longleftrightarrow> distinct (map fst entries) \<and> [] \<notin> set (map fst entries)"

text \<open>
  The entries of the root for which the loop of \<open>list_modules\<close> reaches the title:
  directories that are not excluded, not hidden, and have a notebook file.
\<close>

fun is_module :: "pystr \<times> fsnode \<Rightarrow> bool" where
  "is_module (name, File content) = False"
| "is_module (name, Dir children) =
     (name \<notin> EXCLUDE_DIRS \<and> \<not> startswith name (ascii ''.'') \<and> ipynb_names children \<noteq> [])"

text \<open>
  The content the heading pattern captures in a line, if the line matches, and whether
  a line matches.
\<close>

definition heading_of :: "pystr \<Rightarrow> pystr option" where
  "heading_of line = map_option (\<lambda>m. group m 1) (re_match H1_PATTERN line)"

definition is_heading :: "pystr \<Rightarrow> bool" where
  "is_heading line \<longleftrightarrow> heading_of line \<noteq> None"

section \<open>Example inputs\<close>

text \<open>A README with a title line, the two markers around an old list, and a footer.\<close>

definition example_readme :: pystr where
  "example_readme =
     ascii ''# T'' @ [10] @ BEGIN_MARKER @ [10] @ ascii ''old'' @ [10] @ END_MARKER @ [10] @
     ascii ''end'' @ [10]"

text \<open>
  The world with the given root directory, no environment variable, no answer from
  git, and a fixed clock.
\<close>

definition world_of :: "(pystr \<times> fsnode) list \<Rightarrow> world" where
  "world_of entries =
     \<lparr>fs_root = entries, environ = Map.empty, git_stdout = (\<lambda>args. None), git_calls = [],
      now_utc = ascii ''2024-01-01 00:00:00Z'', console = []\<rparr>"

text \<open>
  A README without markers, and one with the END marker before the BEGIN marker.
\<close>

definition readme_no_markers :: pystr where
  "readme_no_markers = ascii ''# T''"

definition readme_wrong_order :: pystr where
  "readme_wrong_order = END_MARKER @ BEGIN_MARKER"

text \<open>
  A world where \<open>ZIKUU_GITHUB_REPO\<close> is set, with blanks around the value, and one where
  it is not set and git reports an HTTPS remote.
\<close>

definition world_env_set :: world where
  "world_env_set =
     (world_of [])\<lparr>environ := [ascii ''ZIKUU_GITHUB_REPO'' \<mapsto> ascii '' acme/widgets  '']\<rparr>"

definition world_git_remote :: world where
  "world_git_remote =
     (world_of [])\<lparr>git_stdout := (\<lambda>args. Some (ascii ''https://github.com/acme/widgets.git'' @ [10]))\<rparr>"

text \<open>
  A repository with one module \<open>m\<close>, whose README starts with a heading line that has
  only blanks after the \<open>#\<close>, and a second heading line.
\<close>

definition blank_heading_readme :: pystr where
  "blank_heading_readme = ascii ''#  '' @ [10] @ ascii ''# Real'' @ [10]"

definition blank_heading_root :: "(pystr \<times> fsnode) list" where
  "blank_heading_root =
     [(ascii ''m'', Dir [(ascii ''a.ipynb'', File []), (README_NAME, File blank_heading_readme)])]"

text \<open>
  The repository of the end-to-end scenario: \<open>a\<close> with two notebooks and no README,
  \<open>b\<close> with one notebook and a README, \<open>.git\<close> and \<open>scripts\<close> with notebooks of their
  own, a directory \<open>docs\<close> without notebooks, and the root README. Its world has
  \<open>ZIKUU_GITHUB_REPO=acme/widgets\<close>; \<open>scenario_items\<close> are its modules and
  \<open>scenario_block\<close> is the block rendered for them.
\<close>

definition scenario_root :: "(pystr \<times> fsnode) list" where
  "scenario_root =
     [(ascii ''scripts'', Dir [(ascii ''s.ipynb'', File [])]),
      (ascii ''b'', Dir [(ascii ''n.ipynb'', File []),
                         (README_NAME, File (ascii ''# Project B'' @ [10]))]),
      (README_NAME, File example_readme),
      (ascii ''.git'', Dir [(ascii ''g.ipynb'', File [])]),
      (ascii ''docs'', Dir [(ascii ''notes.txt'', File [])]),
      (ascii ''a'', Dir [(ascii ''y.ipynb'', File []), (ascii ''x.ipynb'', File [])])]"

definition scenario_world :: world where
  "scenario_world =
     (world_of scenario_root)\<lparr>environ := [ascii ''ZIKUU_GITHUB_REPO'' \<mapsto> ascii ''acme/widgets'']\<rparr>"

definition scenario_items :: "NotebookItem list" where
  "scenario_items =
     [\<lparr>module_dir = ascii ''a'', module_title = ascii ''a'',
        notebooks = [ascii ''x.ipynb'', ascii ''y.ipynb'']\<rparr>,
      \<lparr>module_dir = ascii ''b'', module_title = ascii ''Project B'',
        notebooks = [ascii ''n.ipynb'']\<rparr>]"

definition scenario_block :: pystr where
  "scenario_block =
     render_list (now_utc scenario_world) scenario_items (Some (ascii ''acme/widgets''))"

text \<open>
  A repository with one module whose README heading is the text of the END marker; the
  block rendered for it, and the worlds after a first and after a second run in it.
\<close>

definition end_title_root :: "(pystr \<times> fsnode) list" where
  "end_title_root =
     [(README_NAME, File (BEGIN_MARKER @ [10] @ END_MARKER @ [10])),
      (ascii ''m'', Dir [(ascii ''a.ipynb'', File []),
                         (README_NAME, File (ascii ''# '' @ END_MARKER @ [10]))])]"

definition end_title_world :: world where
  "end_title_world = world_of end_title_root"

definition end_title_block :: pystr where
  "end_title_block =
     UPDATED_PREFIX @ ascii ''2024-01-01 00:00:00Z'' @ [10, 10] @
     ascii ''- **['' @ END_MARKER @ ascii ''](./m/)**'' @ [10] @
     ascii ''  - `a.ipynb`'' @ FALLBACK_NOTE @ [10]"

definition end_title_after_first :: world where
  "end_title_after_first =
     \<lparr>fs_root =
        [(README_NAME, File (BEGIN_MARKER @ [10] @ end_title_block @ END_MARKER @ [10])),
         (ascii ''m'', Dir [(ascii ''a.ipynb'', File []),
                            (README_NAME, File (ascii ''# '' @ END_MARKER @ [10]))])],
      environ = Map.empty, git_stdout = (\<lambda>args. None), git_calls = [GIT_REMOTE_ARGS],
      now_utc = ascii ''2024-01-01 00:00:00Z'',
      console = [Msg_Updated, Msg_NoteSetRepo]\<rparr>"

definition end_title_after_second :: world where
  "end_title_after_second =
     \<lparr>fs_root =
        [(README_NAME,
          File (BEGIN_MARKER @ [10] @ end_title_block @ END_MARKER @ ascii ''](./m/)**'' @ [10] @
                ascii ''  - `a.ipynb`'' @ FALLBACK_NOTE @ [10] @ END_MARKER @ [10])),
         (ascii ''m'', Dir [(ascii ''a.ipynb'', File []),
                            (README_NAME, File (ascii ''# '' @ END_MARKER @ [10]))])],
      environ = Map.empty, git_stdout = (\<lambda>args. None),
      git_calls = [GIT_REMOTE_ARGS, GIT_REMOTE_ARGS],
      now_utc = ascii ''2024-01-01 00:00:00Z'',
      console = [Msg_Updated, Msg_NoteSetRepo, Msg_Updated, Msg_NoteSetRepo]\<rparr>"

text \<open>
  A repository with one module and an identifier, taken from the environment, that has
  a carriage return in it; the block rendered for it and the world after a first run.
\<close>

definition cr_world :: world where
  "cr_world =
     (world_of [(README_NAME, File (BEGIN_MARKER @ [10] @ END_MARKER @ [10])),
                (ascii ''m'', Dir [(ascii ''a.ipynb'', File [])])])
       \<lparr>environ := [ascii ''ZIKUU_GITHUB_REPO'' \<mapsto> ascii ''acme/wid'' @ [13] @ ascii ''gets'']\<rparr>"

definition cr_block :: pystr where
  "cr_block =
     UPDATED_PREFIX @ ascii ''2024-01-01 00:00:00Z'' @ [10, 10] @
     ascii ''- **[m](./m/)**'' @ [10] @
     ascii ''  - [a.ipynb](https://colab.research.google.com/github/acme/wid'' @ [13] @
     ascii ''gets/blob/main/m/a.ipynb)'' @ [10]"

definition cr_after_first :: world where
  "cr_after_first =
     cr_world\<lparr>fs_root :=
                 [(README_NAME, File (BEGIN_MARKER @ [10] @ cr_block @ END_MARKER @ [10])),
                  (ascii ''m'', Dir [(ascii ''a.ipynb'', File [])])],
               console := [Msg_Updated]\<rparr>"

section \<open>Substring search\<close>

lemma occurs_at_Cons_0: "occurs_at sub (c # cs) 0 \<longleftrightarrow> prefix sub (c # cs)"
  by (simp add: occurs_at_def)

lemma occurs_at_Cons_Suc: "occurs_at sub (c # cs) (Suc i) \<longleftrightarrow> occurs_at sub cs i"
  by (simp add: occurs_at_def)

lemma occurs_at_Nil: "occurs_at sub [] i \<longleftrightarrow> i = 0 \<and> sub = []"
  by (auto simp add: occurs_at_def)

lemma occurs_Nil: "occurs sub [] \<longleftrightarrow> sub = []"
  by (simp add: occurs_def occurs_at_Nil)

lemma occurs_Cons: "occurs sub (c # cs) \<longleftrightarrow> prefix sub (c # cs) \<or> occurs sub cs"
proof
  assume "occurs sub (c # cs)"
  then obtain i where i: "i \<le> Suc (length cs)" "occurs_at sub (c # cs) i"
    by (auto simp add: occurs_def)
  show "prefix sub (c # cs) \<or> occurs sub cs"
  proof (cases i)
    case 0
    with i show ?thesis by (simp add: occurs_at_Cons_0)
  next
    case (Suc k)
    with i have "occurs_at sub cs k" "k \<le> length cs" by (simp_all add: occurs_at_Cons_Suc)
    then show ?thesis by (auto simp add: occurs_def)
  qed
next
  assume "prefix sub (c # cs) \<or> occurs sub cs"
  then show "occurs sub (c # cs)"
  proof
    assume "prefix sub (c # cs)"
    then have "occurs_at sub (c # cs) 0" by (simp add: occurs_at_Cons_0)
    then show ?thesis unfolding occurs_def by (intro bexI[of _ 0]) auto
  next
    assume "occurs sub cs"
    then obtain k where "k \<le> length cs" "occurs_at sub cs k" by (auto simp add: occurs_def)
    then have "occurs_at sub (c # cs) (Suc k)" "Suc k \<le> length (c # cs)"
      by (simp_all add: occurs_at_Cons_Suc)
    then show ?thesis unfolding occurs_def by (intro bexI[of _ "Suc k"]) auto
  qed
qed

lemma str_contains_occurs: "str_contains s sub \<longleftrightarrow> occurs sub s"
  by (induction s) (simp_all add: occurs_Nil occurs_Cons)

lemma first_occurrence_Nil: "first_occurrence sub [] i \<longleftrightarrow> i = 0 \<and> sub = []"
  by (auto simp add: first_occurrence_def occurs_at_Nil)

lemma first_occurrence_Cons_0:
  "first_occurrence sub (c # cs) 0 \<longleftrightarrow> prefix sub (c # cs)"
  by (simp add: first_occurrence_def occurs_at_Cons_0)

lemma first_occurrence_Cons_Suc:
  "first_occurrence sub (c # cs) (Suc i) \<longleftrightarrow> \<not> prefix sub (c # cs) \<and> first_occurrence sub cs i"
proof -
  have "(\<forall>j\<in>{0..<Suc i}. \<not> occurs_at sub (c # cs) j) \<longleftrightarrow>
        \<not> prefix sub (c # cs) \<and> (\<forall>j\<in>{0..<i}. \<not> occurs_at sub cs j)"
  proof -
    have "(\<forall>j\<in>{0..<Suc i}. \<not> occurs_at sub (c # cs) j) \<longleftrightarrow>
          (\<forall>j<Suc i. \<not> occurs_at sub (c # cs) j)" by auto
    also have "\<dots> \<longleftrightarrow> \<not> occurs_at sub (c # cs) 0 \<and> (\<forall>j<i. \<not> occurs_at sub (c # cs) (Suc j))"
      by (metis less_Suc_eq_0_disj Suc_less_eq zero_less_Suc)
    finally show ?thesis by (auto simp add: occurs_at_Cons_0 occurs_at_Cons_Suc)
  qed
  then show ?thesis by (auto simp add: first_occurrence_def occurs_at_Cons_Suc)
qed

lemma str_index_first: "str_index s sub = Inr i \<longleftrightarrow> first_occurrence sub s i"
proof (induction s arbitrary: i)
  case Nil
  then show ?case by (auto simp add: first_occurrence_Nil)
next
  case (Cons c cs)
  show ?case
  proof (cases i)
    case 0
    then show ?thesis by (simp add: first_occurrence_Cons_0 split: sum.splits)
  next
    case (Suc k)
    then show ?thesis using Cons.IH[of k]
      by (auto simp add: first_occurrence_Cons_Suc split: sum.splits)
  qed
qed

lemma str_index_error: "str_index s sub = Inl e \<longleftrightarrow> e = ValueError \<and> \<not> occurs sub s"
  by (induction s) (auto simp add: occurs_Nil occurs_Cons split: sum.splits)

lemma occurs_at_nth:
  "occurs_at sub s i \<longleftrightarrow> i + length sub \<le> length s \<and> (\<forall>k<length sub. s ! (i + k) = sub ! k)"
proof
  assume "occurs_at sub s i"
  then obtain zs where zs: "drop i s = sub @ zs" and i: "i \<le> length s"
    by (auto simp add: occurs_at_def prefix_def)
  from zs have "length s - i = length sub + length zs"
    by (metis length_append length_drop)
  with i have len: "i + length sub \<le> length s" by simp
  have "s ! (i + k) = sub ! k" if "k < length sub" for k
  proof -
    have "s ! (i + k) = drop i s ! k" using len that by simp
    also have "\<dots> = sub ! k" using zs that by (simp add: nth_append)
    finally show ?thesis .
  qed
  with len show "i + length sub \<le> length s \<and> (\<forall>k<length sub. s ! (i + k) = sub ! k)" by simp
next
  assume a: "i + length sub \<le> length s \<and> (\<forall>k<length sub. s ! (i + k) = sub ! k)"
  then have "take (length sub) (drop i s) = sub"
    by (intro nth_equalityI) auto
  then have "prefix sub (drop i s)"
    by (metis take_is_prefix)
  with a show "occurs_at sub s i" by (simp add: occurs_at_def)
qed

section \<open>The markers\<close>

lemma BEGIN_MARKER_length: "length BEGIN_MARKER = 35"
  by (simp add: BEGIN_MARKER_def ascii_def)

lemma END_MARKER_length: "length END_MARKER = 33"
  by (simp add: END_MARKER_def ascii_def)

lemma BEGIN_MARKER_lt: "k < length BEGIN_MARKER \<Longrightarrow> BEGIN_MARKER ! k = 60 \<Longrightarrow> k = 0"
proof -
  have shape: "BEGIN_MARKER = 60 # tl BEGIN_MARKER" and rest: "60 \<notin> set (tl BEGIN_MARKER)"
    by (simp_all add: BEGIN_MARKER_def ascii_def)
  assume k: "k < length BEGIN_MARKER" and c: "BEGIN_MARKER ! k = 60"
  show "k = 0"
  proof (rule ccontr)
    assume "k \<noteq> 0"
    then obtain j where j: "k = Suc j" by (cases k) auto
    with k shape have "j < length (tl BEGIN_MARKER)" by simp
    then have "tl BEGIN_MARKER ! j \<in> set (tl BEGIN_MARKER)" by simp
    moreover have "BEGIN_MARKER ! k = tl BEGIN_MARKER ! j"
      using j shape by (metis nth_Cons_Suc)
    ultimately show False using c rest by simp
  qed
qed

lemma END_MARKER_lt: "k < length END_MARKER \<Longrightarrow> END_MARKER ! k = 60 \<Longrightarrow> k = 0"
proof -
  have shape: "END_MARKER = 60 # tl END_MARKER" and rest: "60 \<notin> set (tl END_MARKER)"
    by (simp_all add: END_MARKER_def ascii_def)
  assume k: "k < length END_MARKER" and c: "END_MARKER ! k = 60"
  show "k = 0"
  proof (rule ccontr)
    assume "k \<noteq> 0"
    then obtain j where j: "k = Suc j" by (cases k) auto
    with k shape have "j < length (tl END_MARKER)" by simp
    then have "tl END_MARKER ! j \<in> set (tl END_MARKER)" by simp
    moreover have "END_MARKER ! k = tl END_MARKER ! j"
      using j shape by (metis nth_Cons_Suc)
    ultimately show False using c rest by simp
  qed
qed

lemma END_MARKER_hd: "END_MARKER ! 0 = 60"
  by (simp add: END_MARKER_def ascii_def)

lemma markers_differ: "BEGIN_MARKER ! 26 \<noteq> END_MARKER ! 26"
  by (simp add: BEGIN_MARKER_def END_MARKER_def ascii_def)

text \<open>No occurrence of the END marker starts inside an occurrence of the BEGIN marker.\<close>

lemma markers_no_overlap:
  assumes b: "occurs_at BEGIN_MARKER s b" and e: "occurs_at END_MARKER s e"
    and le: "b \<le> e" and lt: "e < b + length BEGIN_MARKER"
  shows False
proof -
  from b have bn: "\<forall>k<length BEGIN_MARKER. s ! (b + k) = BEGIN_MARKER ! k"
    by (simp add: occurs_at_nth)
  from e have en: "\<forall>k<length END_MARKER. s ! (e + k) = END_MARKER ! k"
    by (simp add: occurs_at_nth)
  from en have "s ! e = 60"
    using END_MARKER_hd END_MARKER_length by (metis add.right_neutral zero_less_numeral)
  moreover from bn le lt have "s ! e = BEGIN_MARKER ! (e - b)"
    by (metis add_diff_inverse_nat less_diff_conv2 not_less add.commute)
  moreover from le lt have "e - b < length BEGIN_MARKER" by arith
  ultimately have "e - b = 0"
    using BEGIN_MARKER_lt[of "e - b"] by simp
  with le have eq: "e = b" by simp
  from bn have "s ! (b + 26) = BEGIN_MARKER ! 26" by (simp add: BEGIN_MARKER_length)
  moreover from en eq have "s ! (b + 26) = END_MARKER ! 26" by (simp add: END_MARKER_length)
  ultimately show False using markers_differ by simp
qed

lemma first_occurrence_occurs: "first_occurrence sub s i \<Longrightarrow> occurs sub s"
  by (auto simp add: first_occurrence_def occurs_def occurs_at_def)

lemma occurs_first_occurrence: "occurs sub s \<Longrightarrow> \<exists>i. first_occurrence sub s i"
proof -
  assume o: "occurs sub s"
  show ?thesis
  proof (cases "str_index s sub")
    case (Inl e)
    with o show ?thesis by (simp add: str_index_error)
  next
    case (Inr i)
    then show ?thesis by (auto simp add: str_index_first)
  qed
qed

lemma first_occurrence_unique:
  "first_occurrence sub s i \<Longrightarrow> first_occurrence sub s j \<Longrightarrow> i = j"
  by (metis str_index_first sum.inject(2))

lemma replace_between_markers_absent:
  "\<not> occurs BEGIN_MARKER t \<or> \<not> occurs END_MARKER t \<Longrightarrow>
   replace_between_markers t blk = Inl RuntimeError_MarkersNotFound"
  by (auto simp add: replace_between_markers_def str_contains_occurs)

lemma replace_between_markers_present:
  assumes b: "first_occurrence BEGIN_MARKER t b" and e: "first_occurrence END_MARKER t e"
  shows "replace_between_markers t blk =
    (if e < b + length BEGIN_MARKER then Inl RuntimeError_MarkerOrder
     else Inr (take (b + length BEGIN_MARKER) t @ [10] @ blk @ drop e t))"
proof -
  from b e have "str_contains t BEGIN_MARKER" "str_contains t END_MARKER"
    by (simp_all add: str_contains_occurs first_occurrence_occurs)
  moreover from b e have "str_index t BEGIN_MARKER = Inr b" "str_index t END_MARKER = Inr e"
    by (simp_all add: str_index_first)
  ultimately show ?thesis
    by (simp add: replace_between_markers_def Let_def)
qed

lemma marker_order:
  assumes b: "first_occurrence BEGIN_MARKER t b" and e: "first_occurrence END_MARKER t e"
  shows "e < b + length BEGIN_MARKER \<longleftrightarrow> e < b"
proof
  assume lt: "e < b + length BEGIN_MARKER"
  show "e < b"
  proof (rule ccontr)
    assume "\<not> e < b"
    then have "b \<le> e" by simp
    with markers_no_overlap[of t b e] b e lt show False
      by (simp add: first_occurrence_def)
  qed
qed simp

section \<open>Marker substitution\<close>

text \<open>
  C1. When both markers occur in the text and the first END marker starts at or after
  the end of the first BEGIN marker, the substitution returns the text up to and
  including the first BEGIN marker, a newline, the new block, and the text from the
  first END marker on, whatever the block is; the text before BEGIN and the text from
  END on are those of the input.
\<close>

theorem marker_substitution_result:
  assumes b: "first_occurrence BEGIN_MARKER t b"
    and e: "first_occurrence END_MARKER t e"
    and le: "b + length BEGIN_MARKER \<le> e"
  shows "replace_between_markers t blk =
           Inr (take (b + length BEGIN_MARKER) t @ [10] @ blk @ drop e t) \<and>
         take (b + length BEGIN_MARKER) t = take b t @ BEGIN_MARKER \<and>
         drop e t = END_MARKER @ drop (e + length END_MARKER) t"
proof -
  from le have "\<not> e < b + length BEGIN_MARKER" by simp
  with b e have r: "replace_between_markers t blk =
      Inr (take (b + length BEGIN_MARKER) t @ [10] @ blk @ drop e t)"
    by (simp add: replace_between_markers_present)
  from b have "prefix BEGIN_MARKER (drop b t)"
    by (simp add: first_occurrence_def occurs_at_def)
  then obtain zs where zs: "drop b t = BEGIN_MARKER @ zs" by (auto simp add: prefix_def)
  have "take (b + length BEGIN_MARKER) t = take b t @ take (length BEGIN_MARKER) (drop b t)"
    by (simp add: take_add)
  with zs have p: "take (b + length BEGIN_MARKER) t = take b t @ BEGIN_MARKER" by simp
  from e have "prefix END_MARKER (drop e t)"
    by (simp add: first_occurrence_def occurs_at_def)
  then obtain ys where ys: "drop e t = END_MARKER @ ys" by (auto simp add: prefix_def)
  have "drop (e + length END_MARKER) t = drop (length END_MARKER) (drop e t)"
    by (simp add: add.commute)
  with ys have "drop e t = END_MARKER @ drop (e + length END_MARKER) t" by simp
  with r p show ?thesis by simp
qed

lemma example_readme_begin: "first_occurrence BEGIN_MARKER example_readme 4"
  unfolding str_index_first[symmetric]
  by (simp add: example_readme_def BEGIN_MARKER_def ascii_def)

lemma example_readme_end: "first_occurrence END_MARKER example_readme 44"
  unfolding str_index_first[symmetric]
  by (simp add: example_readme_def BEGIN_MARKER_def END_MARKER_def ascii_def)

theorem marker_substitution_result_witness:
  "first_occurrence BEGIN_MARKER example_readme 4 \<and>
   first_occurrence END_MARKER example_readme 44 \<and>
   4 + length BEGIN_MARKER \<le> 44 \<and>
   replace_between_markers example_readme END_MARKER =
     Inr (ascii ''# T'' @ [10] @ BEGIN_MARKER @ [10] @ END_MARKER @ END_MARKER @ [10] @
          ascii ''end'' @ [10])"
proof -
  have le: "4 + length BEGIN_MARKER \<le> 44" by (simp add: BEGIN_MARKER_length)
  have "replace_between_markers example_readme END_MARKER =
          Inr (take (4 + length BEGIN_MARKER) example_readme @ [10] @ END_MARKER @
               drop 44 example_readme)"
    using marker_substitution_result[OF example_readme_begin example_readme_end le]
    by (rule conjunct1)
  moreover have "take (4 + length BEGIN_MARKER) example_readme = ascii ''# T'' @ [10] @ BEGIN_MARKER"
    by (simp add: example_readme_def BEGIN_MARKER_def ascii_def)
  moreover have "drop 44 example_readme = END_MARKER @ [10] @ ascii ''end'' @ [10]"
    by (simp add: example_readme_def BEGIN_MARKER_def ascii_def)
  ultimately show ?thesis
    using example_readme_begin example_readme_end le by simp
qed

lemma replace_between_markers_cases:
  "(replace_between_markers t blk = Inl RuntimeError_MarkersNotFound \<and>
      (\<not> occurs BEGIN_MARKER t \<or> \<not> occurs END_MARKER t)) \<or>
   (\<exists>b e. first_occurrence BEGIN_MARKER t b \<and> first_occurrence END_MARKER t e \<and> e < b \<and>
      replace_between_markers t blk = Inl RuntimeError_MarkerOrder) \<or>
   (\<exists>b e. first_occurrence BEGIN_MARKER t b \<and> first_occurrence END_MARKER t e \<and>
      b + length BEGIN_MARKER \<le> e \<and>
      replace_between_markers t blk =
        Inr (take (b + length BEGIN_MARKER) t @ [10] @ blk @ drop e t))"
proof (cases "occurs BEGIN_MARKER t \<and> occurs END_MARKER t")
  case False
  then show ?thesis using replace_between_markers_absent[of t blk] by blast
next
  case True
  then obtain b e where b: "first_occurrence BEGIN_MARKER t b"
    and e: "first_occurrence END_MARKER t e"
    using occurs_first_occurrence by blast
  show ?thesis
  proof (cases "e < b + length BEGIN_MARKER")
    case True
    with b e have "e < b" by (simp add: marker_order)
    moreover from True b e have "replace_between_markers t blk = Inl RuntimeError_MarkerOrder"
      by (simp add: replace_between_markers_present)
    ultimately show ?thesis using b e by blast
  next
    case False
    with b e have "replace_between_markers t blk =
        Inr (take (b + length BEGIN_MARKER) t @ [10] @ blk @ drop e t)"
      by (simp add: replace_between_markers_present)
    moreover from False have "b + length BEGIN_MARKER \<le> e" by simp
    ultimately show ?thesis using b e by blast
  qed
qed

lemma replace_between_markers_fails_iff:
  "(\<exists>err. replace_between_markers t blk = Inl err) \<longleftrightarrow>
   (\<not> occurs BEGIN_MARKER t \<or> \<not> occurs END_MARKER t \<or>
    (\<exists>b e. first_occurrence BEGIN_MARKER t b \<and> first_occurrence END_MARKER t e \<and> e < b))"
proof
  assume "\<exists>err. replace_between_markers t blk = Inl err"
  then obtain err where f: "replace_between_markers t blk = Inl err" ..
  from replace_between_markers_cases[of t blk] f
  show "\<not> occurs BEGIN_MARKER t \<or> \<not> occurs END_MARKER t \<or>
    (\<exists>b e. first_occurrence BEGIN_MARKER t b \<and> first_occurrence END_MARKER t e \<and> e < b)"
    by auto
next
  assume a: "\<not> occurs BEGIN_MARKER t \<or> \<not> occurs END_MARKER t \<or>
    (\<exists>b e. first_occurrence BEGIN_MARKER t b \<and> first_occurrence END_MARKER t e \<and> e < b)"
  show "\<exists>err. replace_between_markers t blk = Inl err"
  proof (cases "\<not> occurs BEGIN_MARKER t \<or> \<not> occurs END_MARKER t")
    case True
    then show ?thesis using replace_between_markers_absent[of t blk] by blast
  next
    case False
    with a obtain b e where b: "first_occurrence BEGIN_MARKER t b"
      and e: "first_occurrence END_MARKER t e" and lt: "e < b" by blast
    from lt have "e < b + length BEGIN_MARKER" by simp
    with b e have "replace_between_markers t blk = Inl RuntimeError_MarkerOrder"
      by (simp add: replace_between_markers_present)
    then show ?thesis by blast
  qed
qed

lemma run_git_frame:
  "run_git args w = (r, w') \<Longrightarrow>
   fs_root w' = fs_root w \<and> environ w' = environ w \<and> git_stdout w' = git_stdout w \<and>
   now_utc w' = now_utc w \<and> console w' = console w"
  by (auto simp add: run_git_def)

lemma detect_github_repo_frame:
  assumes "detect_github_repo w = (r, w')"
  shows "fs_root w' = fs_root w \<and> environ w' = environ w \<and> git_stdout w' = git_stdout w \<and>
         now_utc w' = now_utc w \<and> console w' = console w"
proof (cases "truthy (strip (getenv w (ascii ''ZIKUU_GITHUB_REPO'') []))")
  case True
  with assms show ?thesis by (simp add: detect_github_repo_def Let_def)
next
  case False
  obtain remote w1 where g: "run_git GIT_REMOTE_ARGS w = (remote, w1)"
    by (cases "run_git GIT_REMOTE_ARGS w")
  with False assms have "w' = w1"
    by (auto simp add: detect_github_repo_def Let_def split: if_splits)
  with run_git_frame[OF g] show ?thesis by simp
qed

lemma main_failure_keeps_fs:
  assumes "main w = (Inl err, w')"
  shows "fs_root w' = fs_root w"
proof -
  obtain r w1 where d: "detect_github_repo w = (r, w1)"
    by (cases "detect_github_repo w")
  have fs: "fs_root w1 = fs_root w" using detect_github_repo_frame[OF d] by simp
  from assms d have "w' = w \<or> w' = w1"
    by (auto simp add: main_def Let_def split: option.splits sum.splits if_splits)
  with fs show ?thesis by auto
qed

lemma main_marker_failure:
  assumes readme: "map_of (fs_root w) README_NAME = Some (File content)"
    and fail: "replace_between_markers (universal_newlines content) blk0 = Inl err0"
  shows "\<exists>err w'. main w = (Inl err, w') \<and> fs_root w' = fs_root w"
proof -
  obtain r w1 where d: "detect_github_repo w = (r, w1)"
    by (cases "detect_github_repo w")
  have any: "\<exists>err. replace_between_markers (universal_newlines content) blk = Inl err" for blk
    using fail replace_between_markers_fails_iff[of "universal_newlines content" blk]
      replace_between_markers_fails_iff[of "universal_newlines content" blk0] by blast
  have "\<exists>err. main w = (Inl err, w1)"
  proof (cases "list_modules (fs_root w1)")
    case (Inl e)
    with readme d show ?thesis by (simp add: main_def)
  next
    case (Inr items)
    from any obtain err where
      "replace_between_markers (universal_newlines content) (render_list (now_utc w1) items r) = Inl err"
      by blast
    with readme d Inr show ?thesis by (simp add: main_def read_text_def Let_def)
  qed
  then obtain err where m: "main w = (Inl err, w1)" ..
  with main_failure_keeps_fs[OF m] show ?thesis by blast
qed

text \<open>
  C2. The substitution fails exactly when a marker does not occur in the text or the
  first END marker starts before the first BEGIN marker; and when it fails on the text
  read from the README, the run ends with an error and the files are as they were.
\<close>

theorem marker_substitution_failure:
  "((\<exists>err. replace_between_markers t blk = Inl err) \<longleftrightarrow>
      (\<not> occurs BEGIN_MARKER t \<or> \<not> occurs END_MARKER t \<or>
       (\<exists>b e. first_occurrence BEGIN_MARKER t b \<and> first_occurrence END_MARKER t e \<and> e < b))) \<and>
   ((\<exists>err. replace_between_markers t blk = Inl err) \<longrightarrow>
      (\<forall>w content.
         map_of (fs_root w) README_NAME = Some (File content) \<and> universal_newlines content = t \<longrightarrow>
         (\<exists>err w'. main w = (Inl err, w') \<and> fs_root w' = fs_root w)))"
  using replace_between_markers_fails_iff[of t blk] main_marker_failure[of _ _ blk]
  by blast

lemma readme_no_markers_absent: "\<not> occurs BEGIN_MARKER readme_no_markers"
  unfolding str_contains_occurs[symmetric]
  by (simp add: readme_no_markers_def BEGIN_MARKER_def ascii_def)

lemma readme_wrong_order_begin: "first_occurrence BEGIN_MARKER readme_wrong_order 33"
  unfolding str_index_first[symmetric]
  by (simp add: readme_wrong_order_def BEGIN_MARKER_def END_MARKER_def ascii_def)

lemma readme_wrong_order_end: "first_occurrence END_MARKER readme_wrong_order 0"
  unfolding str_index_first[symmetric]
  by (simp add: readme_wrong_order_def BEGIN_MARKER_def END_MARKER_def ascii_def)

theorem marker_substitution_failure_witness:
  "\<not> occurs BEGIN_MARKER readme_no_markers \<and>
   (\<exists>err. replace_between_markers readme_no_markers [] = Inl err) \<and>
   (\<exists>err w'. main (world_of [(README_NAME, File readme_no_markers)]) = (Inl err, w') \<and>
      fs_root w' = [(README_NAME, File readme_no_markers)]) \<and>
   first_occurrence BEGIN_MARKER readme_wrong_order 33 \<and>
   first_occurrence END_MARKER readme_wrong_order 0 \<and>
   (\<exists>err. replace_between_markers readme_wrong_order [] = Inl err)"
proof -
  note a = marker_substitution_failure[of readme_no_markers "[]"]
  note b = marker_substitution_failure[of readme_wrong_order "[]"]
  have f1: "\<exists>err. replace_between_markers readme_no_markers [] = Inl err"
    using a readme_no_markers_absent by blast
  have un: "universal_newlines readme_no_markers = readme_no_markers"
    by (simp add: readme_no_markers_def ascii_def)
  have look: "map_of (fs_root (world_of [(README_NAME, File readme_no_markers)])) README_NAME =
      Some (File readme_no_markers)"
    by (simp add: world_of_def)
  have f2: "\<exists>err w'. main (world_of [(README_NAME, File readme_no_markers)]) = (Inl err, w') \<and>
      fs_root w' = fs_root (world_of [(README_NAME, File readme_no_markers)])"
    using a f1 un look by blast
  have "(0::nat) < 33" by simp
  then have f3: "\<exists>err. replace_between_markers readme_wrong_order [] = Inl err"
    using b readme_wrong_order_begin readme_wrong_order_end by blast
  from f1 f2 f3 readme_no_markers_absent readme_wrong_order_begin readme_wrong_order_end
  show ?thesis by (simp add: world_of_def)
qed

section \<open>Repository identifier\<close>

lemmas re_eval = lits_def ascii_def re_match_def re_init_def group_def close_group_def
  cls_not_slash_def cls_dot_def cls_space_def is_space_def

lemmas strip_eval = strip_def lstrip_def rstrip_def is_space_def

text \<open>
  C4. The three examples of remote-URL parsing: an HTTPS GitHub URL ending in
  \<open>.git\<close>, an SSH GitHub URL ending in \<open>.git\<close>, and a URL of another host.
\<close>

theorem parse_remote_examples:
  "parse_github_repo_from_remote (ascii ''https://github.com/acme/widgets.git'') =
     Some (ascii ''acme/widgets'') \<and>
   parse_github_repo_from_remote (ascii ''git@github.com:acme/widgets.git'') =
     Some (ascii ''acme/widgets'') \<and>
   parse_github_repo_from_remote (ascii ''https://gitlab.com/acme/widgets'') = None"
proof -
  have "parse_github_repo_from_remote (ascii ''https://github.com/acme/widgets.git'') =
     Some (ascii ''acme/widgets'')"
    by (simp add: parse_github_repo_from_remote_def HTTPS_PATTERN_def re_eval strip_eval)
  moreover have "parse_github_repo_from_remote (ascii ''git@github.com:acme/widgets.git'') =
     Some (ascii ''acme/widgets'')"
    by (simp add: parse_github_repo_from_remote_def HTTPS_PATTERN_def SSH_PATTERN_def
        re_eval strip_eval)
  moreover have "parse_github_repo_from_remote (ascii ''https://gitlab.com/acme/widgets'') = None"
    by (simp add: parse_github_repo_from_remote_def HTTPS_PATTERN_def SSH_PATTERN_def
        re_eval strip_eval)
  ultimately show ?thesis by blast
qed

lemma parse_github_repo_nonempty:
  "parse_github_repo_from_remote r = Some p \<Longrightarrow> p \<noteq> []"
  by (auto simp add: parse_github_repo_from_remote_def Let_def ascii_def split: option.splits)

text \<open>
  C8. When \<open>ZIKUU_GITHUB_REPO\<close> is set and its value is not blank, detection returns
  the stripped value and leaves the world as it was: git is not run. When the variable
  is unset or blank, git is run once for the origin URL, and the result is what parsing
  the stripped output gives (nothing when git fails or prints only blanks).
\<close>

theorem detect_env_priority:
  "(environ w (ascii ''ZIKUU_GITHUB_REPO'') = Some v \<and> strip v \<noteq> [] \<longrightarrow>
      detect_github_repo w = (Some (strip v), w)) \<and>
   (environ w (ascii ''ZIKUU_GITHUB_REPO'') = None \<or>
    environ w (ascii ''ZIKUU_GITHUB_REPO'') = Some v \<and> strip v = [] \<longrightarrow>
      detect_github_repo w =
        ((case git_stdout w GIT_REMOTE_ARGS of
            None \<Rightarrow> None
          | Some out \<Rightarrow> if strip out = [] then None else parse_github_repo_from_remote (strip out)),
         w\<lparr>git_calls := git_calls w @ [GIT_REMOTE_ARGS]\<rparr>))"
proof (intro conjI impI)
  assume "environ w (ascii ''ZIKUU_GITHUB_REPO'') = Some v \<and> strip v \<noteq> []"
  then show "detect_github_repo w = (Some (strip v), w)"
    by (simp add: detect_github_repo_def getenv_def truthy_def)
next
  assume a: "environ w (ascii ''ZIKUU_GITHUB_REPO'') = None \<or>
    environ w (ascii ''ZIKUU_GITHUB_REPO'') = Some v \<and> strip v = []"
  have s: "strip [] = []" by (simp add: strip_def lstrip_def rstrip_def)
  from a s have blank: "\<not> truthy (strip (getenv w (ascii ''ZIKUU_GITHUB_REPO'') []))"
    by (auto simp add: getenv_def truthy_def)
  show "detect_github_repo w =
        ((case git_stdout w GIT_REMOTE_ARGS of
            None \<Rightarrow> None
          | Some out \<Rightarrow> if strip out = [] then None else parse_github_repo_from_remote (strip out)),
         w\<lparr>git_calls := git_calls w @ [GIT_REMOTE_ARGS]\<rparr>)"
  proof (cases "git_stdout w GIT_REMOTE_ARGS")
    case None
    with blank show ?thesis
      by (simp add: detect_github_repo_def run_git_def truthy_opt_def)
  next
    case (Some out)
    show ?thesis
    proof (cases "parse_github_repo_from_remote (strip out)")
      case None
      with Some blank show ?thesis
        by (simp add: detect_github_repo_def run_git_def truthy_opt_def truthy_def or_else_def)
    next
      case (Some p)
      then have "p \<noteq> []" by (rule parse_github_repo_nonempty)
      with Some \<open>git_stdout w GIT_REMOTE_ARGS = Some out\<close> blank show ?thesis
        by (simp add: detect_github_repo_def run_git_def truthy_opt_def truthy_def or_else_def)
    qed
  qed
qed

theorem detect_env_priority_witness:
  "environ world_env_set (ascii ''ZIKUU_GITHUB_REPO'') = Some (ascii '' acme/widgets  '') \<and>
   strip (ascii '' acme/widgets  '') = ascii ''acme/widgets'' \<and>
   detect_github_repo world_env_set = (Some (ascii ''acme/widgets''), world_env_set) \<and>
   environ world_git_remote (ascii ''ZIKUU_GITHUB_REPO'') = None \<and>
   detect_github_repo world_git_remote =
     (Some (ascii ''acme/widgets''), world_git_remote\<lparr>git_calls := [GIT_REMOTE_ARGS]\<rparr>)"
proof -
  have e1: "environ world_env_set (ascii ''ZIKUU_GITHUB_REPO'') = Some (ascii '' acme/widgets  '')"
    by (simp add: world_env_set_def world_of_def)
  have s1: "strip (ascii '' acme/widgets  '') = ascii ''acme/widgets''"
    by (simp add: strip_eval ascii_def)
  have n1: "strip (ascii '' acme/widgets  '') \<noteq> []"
    by (simp add: s1) (simp add: ascii_def)
  have d1: "detect_github_repo world_env_set = (Some (strip (ascii '' acme/widgets  '')), world_env_set)"
    using detect_env_priority[of world_env_set "ascii '' acme/widgets  ''"] e1 n1 by blast
  have e2: "environ world_git_remote (ascii ''ZIKUU_GITHUB_REPO'') = None"
    by (simp add: world_git_remote_def world_of_def)
  have g2: "git_stdout world_git_remote GIT_REMOTE_ARGS =
      Some (ascii ''https://github.com/acme/widgets.git'' @ [10])"
    by (simp add: world_git_remote_def world_of_def)
  have s2: "strip (ascii ''https://github.com/acme/widgets.git'' @ [10]) =
      ascii ''https://github.com/acme/widgets.git''"
    by (simp add: strip_eval ascii_def)
  have p2: "parse_github_repo_from_remote (ascii ''https://github.com/acme/widgets.git'') =
     Some (ascii ''acme/widgets'')"
    by (simp add: parse_github_repo_from_remote_def HTTPS_PATTERN_def re_eval strip_eval)
  have n2: "ascii ''https://github.com/acme/widgets.git'' \<noteq> []" by (simp add: ascii_def)
  have c2: "git_calls world_git_remote = []" by (simp add: world_git_remote_def world_of_def)
  have d2: "detect_github_repo world_git_remote =
     (Some (ascii ''acme/widgets''), world_git_remote\<lparr>git_calls := [GIT_REMOTE_ARGS]\<rparr>)"
    using detect_env_priority[of world_git_remote "[]"] e2
    by (simp add: g2 s2 p2 n2 c2)
  from e1 s1 d1 e2 d2 show ?thesis by simp
qed

section \<open>Rendering\<close>

lemma rstrip_last: "rstrip s \<noteq> [] \<Longrightarrow> \<not> is_space (last (rstrip s))"
proof -
  assume n: "rstrip s \<noteq> []"
  then have d: "dropWhile is_space (rev s) \<noteq> []" by (simp add: rstrip_def)
  then have "\<not> is_space (hd (dropWhile is_space (rev s)))" by (rule hd_dropWhile)
  moreover have "last (rstrip s) = hd (dropWhile is_space (rev s))"
    using d by (simp add: rstrip_def last_rev)
  ultimately show ?thesis by simp
qed

lemma rstrip_nonempty: "\<not> is_space c \<Longrightarrow> rstrip (c # s) \<noteq> []"
proof -
  assume c: "\<not> is_space c"
  have "c \<in> set (rev (c # s))" by simp
  with c have "dropWhile is_space (rev (c # s)) \<noteq> []"
    by (metis dropWhile_eq_Nil_conv)
  then show ?thesis by (simp add: rstrip_def del: rev.simps)
qed

lemma render_notebooks_head: "\<exists>more. render_notebooks repo dir nbs (l # ls) = l # more"
  by (induction nbs arbitrary: ls) (auto simp add: Let_def)

lemma render_items_head: "\<exists>more. render_items repo items (l # ls) = l # more"
proof (induction items arbitrary: ls)
  case Nil
  then show ?case by simp
next
  case (Cons it its)
  obtain more where "render_notebooks repo (module_dir it) (notebooks it)
      (l # ls @ [ascii ''- **['' @ module_title it @ ascii '']('' @
         (ascii ''./'' @ module_dir it @ ascii ''/'') @ ascii '')**'']) = l # more"
    using render_notebooks_head by blast
  then show ?case using Cons.IH[of "more @ [[]]"] by (simp add: Let_def)
qed

lemma join_head: "\<exists>rest. join sep ((c # l) # ls) = c # rest"
  by (cases ls) auto

text \<open>
  C9. The rendered block ends with exactly one newline: it is a non-empty text whose
  last character is no whitespace, followed by one newline.
\<close>

theorem render_list_trailing_newline:
  "\<exists>body. render_list now items github_repo = body @ [10] \<and> body \<noteq> [] \<and> \<not> is_space (last body)"
proof (cases "items = []")
  case True
  have "NO_NOTEBOOKS_LINE = butlast NO_NOTEBOOKS_LINE @ [10]"
    and "butlast NO_NOTEBOOKS_LINE \<noteq> []"
    and "\<not> is_space (last (butlast NO_NOTEBOOKS_LINE))"
    by (simp_all add: NO_NOTEBOOKS_LINE_def is_space_def)
  with True show ?thesis by (metis render_list_def)
next
  case False
  obtain more where m: "render_items github_repo items [UPDATED_PREFIX @ now @ [10]] =
      (UPDATED_PREFIX @ now @ [10]) # more"
    using render_items_head by blast
  have "UPDATED_PREFIX @ now @ [10] = 26356 # (tl UPDATED_PREFIX @ now @ [10])"
    by (simp add: UPDATED_PREFIX_def)
  with m obtain rest where j:
    "join [10] (render_items github_repo items [UPDATED_PREFIX @ now @ [10]]) = 26356 # rest"
    using join_head by metis
  have "\<not> is_space 26356" by (simp add: is_space_def)
  then have ne: "rstrip (26356 # rest) \<noteq> []" by (rule rstrip_nonempty)
  then have "\<not> is_space (last (rstrip (26356 # rest)))" by (rule rstrip_last)
  with ne j False show ?thesis by (simp add: render_list_def Let_def)
qed

theorem render_list_trailing_newline_witness:
  "\<exists>body. render_list (ascii ''2024-01-01 00:00:00Z'') [] None = body @ [10] \<and> body \<noteq> [] \<and>
     \<not> is_space (last body)"
  by (rule render_list_trailing_newline)


section \<open>Module enumeration\<close>

lemmas fs_eval = list_modules_def ipynb_names_def endswith_def startswith_def EXCLUDE_DIRS_def
  README_NAME_def first_h1_from_readme_def read_text_def splitlines_def or_else_def truthy_def
  H1_PATTERN_def ascii_def re_match_def re_init_def group_def close_group_def
  cls_not_slash_def cls_dot_def cls_space_def is_space_def strip_def lstrip_def rstrip_def
  is_linebreak_def suffix_to_prefix

lemma list_modules_loop_char:
  "list_modules_loop ps acc = Inr items \<Longrightarrow>
   \<exists>new. items = acc @ new \<and>
     map module_dir new = map fst (filter is_module ps) \<and>
     (\<forall>it\<in>set new. \<exists>children h1.
        (module_dir it, Dir children) \<in> set ps \<and> is_module (module_dir it, Dir children) \<and>
        notebooks it = ipynb_names children \<and>
        first_h1_from_readme (map_of children README_NAME) = Inr h1 \<and>
        module_title it = or_else h1 (module_dir it))"
proof (induction ps acc arbitrary: items rule: list_modules_loop.induct)
  case (1 acc)
  then show ?case by simp
next
  case (2 name content ps acc)
  from "2.prems" have "list_modules_loop ps acc = Inr items" by simp
  from "2.IH"[OF this] show ?case by auto
next
  case (3 name children ps acc)
  show ?case
  proof (cases "is_module (name, Dir children)")
    case False
    with "3.prems" have run: "list_modules_loop ps acc = Inr items"
      by (auto split: if_splits)
    have "list_modules_loop ps acc = Inr items \<Longrightarrow> \<exists>new. items = acc @ new \<and>
       map module_dir new = map fst (filter is_module ps) \<and>
       (\<forall>it\<in>set new. \<exists>children h1.
          (module_dir it, Dir children) \<in> set ps \<and> is_module (module_dir it, Dir children) \<and>
          notebooks it = ipynb_names children \<and>
          first_h1_from_readme (map_of children README_NAME) = Inr h1 \<and>
          module_title it = or_else h1 (module_dir it))"
    proof (cases "name \<in> EXCLUDE_DIRS")
      case True
      then show "list_modules_loop ps acc = Inr items \<Longrightarrow> ?thesis" by (rule "3.IH"(1))
    next
      case ex: False
      show "list_modules_loop ps acc = Inr items \<Longrightarrow> ?thesis"
      proof (cases "startswith name (ascii ''.'')")
        case True
        with ex show "list_modules_loop ps acc = Inr items \<Longrightarrow> ?thesis" by (rule "3.IH"(2))
      next
        case dot: False
        with ex False have "ipynb_names children = []" by simp
        with ex dot show "list_modules_loop ps acc = Inr items \<Longrightarrow> ?thesis" by (rule "3.IH"(3))
      qed
    qed
    from this[OF run] obtain new where new: "items = acc @ new"
      "map module_dir new = map fst (filter is_module ps)"
      "\<forall>it\<in>set new. \<exists>children h1.
          (module_dir it, Dir children) \<in> set ps \<and> is_module (module_dir it, Dir children) \<and>
          notebooks it = ipynb_names children \<and>
          first_h1_from_readme (map_of children README_NAME) = Inr h1 \<and>
          module_title it = or_else h1 (module_dir it)" by blast
    from new(2) False have "map module_dir new = map fst (filter is_module ((name, Dir children) # ps))"
      by simp
    moreover from new(3) have "\<forall>it\<in>set new. \<exists>ch h1.
          (module_dir it, Dir ch) \<in> set ((name, Dir children) # ps) \<and>
          is_module (module_dir it, Dir ch) \<and>
          notebooks it = ipynb_names ch \<and>
          first_h1_from_readme (map_of ch README_NAME) = Inr h1 \<and>
          module_title it = or_else h1 (module_dir it)"
      by (meson list.set_intros(2))
    ultimately show ?thesis using new(1) by blast
  next
    case True
    then have ex: "name \<notin> EXCLUDE_DIRS" and dot: "\<not> startswith name (ascii ''.'')"
      and nb: "ipynb_names children \<noteq> []" by simp_all
    from "3.prems" ex dot nb obtain h1 where
      h1: "first_h1_from_readme (map_of children README_NAME) = Inr h1"
      and run: "list_modules_loop ps
          (acc @ [\<lparr>module_dir = name, module_title = or_else h1 name,
                    notebooks = ipynb_names children\<rparr>]) = Inr items"
      by (auto split: sum.splits)
    from "3.IH"(4)[OF ex dot nb h1 run] obtain new where
      new: "items = (acc @ [\<lparr>module_dir = name, module_title = or_else h1 name,
                    notebooks = ipynb_names children\<rparr>]) @ new"
      "map module_dir new = map fst (filter is_module ps)"
      "\<forall>it\<in>set new. \<exists>children h1.
          (module_dir it, Dir children) \<in> set ps \<and> is_module (module_dir it, Dir children) \<and>
          notebooks it = ipynb_names children \<and>
          first_h1_from_readme (map_of children README_NAME) = Inr h1 \<and>
          module_title it = or_else h1 (module_dir it)"
      by blast
    let ?it = "\<lparr>module_dir = name, module_title = or_else h1 name,
                    notebooks = ipynb_names children\<rparr>"
    have "items = acc @ (?it # new)" using new(1) by simp
    moreover have "map module_dir (?it # new) = map fst (filter is_module ((name, Dir children) # ps))"
      using new(2) True by simp
    moreover have "\<forall>it\<in>set (?it # new). \<exists>ch h.
          (module_dir it, Dir ch) \<in> set ((name, Dir children) # ps) \<and>
          is_module (module_dir it, Dir ch) \<and>
          notebooks it = ipynb_names ch \<and>
          first_h1_from_readme (map_of ch README_NAME) = Inr h \<and>
          module_title it = or_else h (module_dir it)"
    proof
      fix it assume "it \<in> set (?it # new)"
      then consider "it = ?it" | "it \<in> set new" by auto
      then show "\<exists>ch h.
          (module_dir it, Dir ch) \<in> set ((name, Dir children) # ps) \<and>
          is_module (module_dir it, Dir ch) \<and>
          notebooks it = ipynb_names ch \<and>
          first_h1_from_readme (map_of ch README_NAME) = Inr h \<and>
          module_title it = or_else h (module_dir it)"
      proof cases
        case 1
        with True h1 show ?thesis by (intro exI[of _ children] exI[of _ h1]) simp
      next
        case 2
        with new(3) show ?thesis by (meson list.set_intros(2))
      qed
    qed
    ultimately show ?thesis by blast
  qed
qed

lemma list_modules_char:
  assumes "list_modules root = Inr items"
  shows "map module_dir items = map fst (filter is_module (sort_key fst root)) \<and>
     (\<forall>it\<in>set items. \<exists>children h1.
        (module_dir it, Dir children) \<in> set root \<and> is_module (module_dir it, Dir children) \<and>
        notebooks it = ipynb_names children \<and>
        first_h1_from_readme (map_of children README_NAME) = Inr h1 \<and>
        module_title it = or_else h1 (module_dir it))"
proof -
  from assms have "list_modules_loop (sort_key fst root) [] = Inr items"
    by (simp add: list_modules_def)
  from list_modules_loop_char[OF this] show ?thesis by simp
qed

lemma module_dirs_sorted:
  "list_modules root = Inr items \<Longrightarrow> sorted (map module_dir items)"
proof -
  assume "list_modules root = Inr items"
  then have "map module_dir items = map fst (filter is_module (sort_key fst root))"
    using list_modules_char by blast
  moreover have "sorted (map fst (sort_key fst root))" by (rule sorted_sort_key)
  then have "sorted (map fst (filter is_module (sort_key fst root)))" by (rule sorted_filter)
  ultimately show ?thesis by simp
qed

lemma distinct_map_sort_key:
  "distinct (map f (sort_key f xs)) = distinct (map f xs)"
  by (induction xs) (simp_all add: distinct_insort_key)

lemma module_dirs_distinct:
  "distinct (map fst root) \<Longrightarrow> list_modules root = Inr items \<Longrightarrow> distinct (map module_dir items)"
proof -
  assume d: "distinct (map fst root)" and "list_modules root = Inr items"
  then have "map module_dir items = map fst (filter is_module (sort_key fst root))"
    using list_modules_char by blast
  moreover from d have "distinct (map fst (sort_key fst root))"
    by (simp add: distinct_map_sort_key)
  then have "distinct (map fst (filter is_module (sort_key fst root)))"
    by (rule distinct_map_filter)
  ultimately show ?thesis by simp
qed

text \<open>
  Module enumeration returns unless the \<open>README.md\<close> of a module is a directory.
\<close>

lemma list_modules_loop_returns:
  assumes "\<forall>(name, node)\<in>set ps. \<forall>children sub.
             node = Dir children \<longrightarrow> map_of children README_NAME \<noteq> Some (Dir sub)"
  shows "\<exists>items. list_modules_loop ps acc = Inr items"
  using assms
proof (induction ps acc rule: list_modules_loop.induct)
  case (1 acc)
  then show ?case by simp
next
  case (2 name content ps acc)
  then show ?case by simp
next
  case (3 name children ps acc)
  from "3.prems" have rest: "\<forall>(name, node)\<in>set ps. \<forall>children sub.
             node = Dir children \<longrightarrow> map_of children README_NAME \<noteq> Some (Dir sub)"
    by simp
  from "3.prems" have here: "\<forall>sub. map_of children README_NAME \<noteq> Some (Dir sub)" by simp
  have "\<exists>h1. first_h1_from_readme (map_of children README_NAME) = Inr h1"
  proof (cases "map_of children README_NAME")
    case None
    then show ?thesis by (simp add: first_h1_from_readme_def)
  next
    case (Some node)
    with here obtain content where "node = File content" by (cases node) auto
    with Some show ?thesis by (simp add: first_h1_from_readme_def read_text_def)
  qed
  then obtain h1 where h1: "first_h1_from_readme (map_of children README_NAME) = Inr h1" ..
  show ?case
  proof (cases "name \<in> EXCLUDE_DIRS")
    case True
    with "3.IH"(1)[OF True rest] show ?thesis by simp
  next
    case ex: False
    show ?thesis
    proof (cases "startswith name (ascii ''.'')")
      case True
      with "3.IH"(2)[OF ex True rest] ex show ?thesis by simp
    next
      case dot: False
      show ?thesis
      proof (cases "ipynb_names children = []")
        case True
        with "3.IH"(3)[OF ex dot True rest] ex dot show ?thesis by simp
      next
        case False
        with "3.IH"(4)[OF ex dot False h1 rest] ex dot h1 show ?thesis by simp
      qed
    qed
  qed
qed

lemma list_modules_returns:
  assumes "\<forall>(name, node)\<in>set root. \<forall>children sub.
             node = Dir children \<longrightarrow> map_of children README_NAME \<noteq> Some (Dir sub)"
  shows "\<exists>items. list_modules root = Inr items"
proof -
  from assms have "\<forall>(name, node)\<in>set (sort_key fst root). \<forall>children sub.
             node = Dir children \<longrightarrow> map_of children README_NAME \<noteq> Some (Dir sub)"
    by simp
  then show ?thesis unfolding list_modules_def by (rule list_modules_loop_returns)
qed

lemma first_h1_lines_find:
  "first_h1_lines ls =
     (case find is_heading ls of
        None \<Rightarrow> None
      | Some l \<Rightarrow> map_option strip (heading_of l))"
  by (induction ls) (auto simp add: is_heading_def heading_of_def split: option.splits)

lemma find_is_heading: "find is_heading ls = Some l \<Longrightarrow> \<exists>c. heading_of l = Some c"
  by (auto simp add: find_Some_iff is_heading_def)

lemma wf_listing_map_of:
  "wf_listing root \<Longrightarrow> (name, node) \<in> set root \<Longrightarrow> map_of root name = Some node"
  by (simp add: wf_listing_def)

lemma scenario_modules: "list_modules scenario_root =
   Inr [\<lparr>module_dir = ascii ''a'', module_title = ascii ''a'',
          notebooks = [ascii ''x.ipynb'', ascii ''y.ipynb'']\<rparr>,
        \<lparr>module_dir = ascii ''b'', module_title = ascii ''Project B'',
          notebooks = [ascii ''n.ipynb'']\<rparr>]"
  by (simp add: scenario_root_def example_readme_def fs_eval)

lemma blank_heading_modules: "list_modules blank_heading_root =
   Inr [\<lparr>module_dir = ascii ''m'', module_title = ascii ''m'', notebooks = [ascii ''a.ipynb'']\<rparr>]"
  by (simp add: blank_heading_root_def blank_heading_readme_def fs_eval)

lemma scenario_wf: "wf_listing scenario_root"
  by (simp add: wf_listing_def scenario_root_def README_NAME_def ascii_def)

lemma blank_heading_wf: "wf_listing blank_heading_root"
  by (simp add: wf_listing_def blank_heading_root_def ascii_def)

text \<open>
  C5. When module enumeration returns, the entries are in ascending order of their
  directory names, and no entry has a name of the exclusion set or a name that starts
  with a dot.
\<close>

theorem list_modules_sorted_and_filtered:
  assumes "list_modules root = Inr items"
  shows "sorted (map module_dir items) \<and>
         (\<forall>it\<in>set items. module_dir it \<notin> EXCLUDE_DIRS \<and>
                           \<not> startswith (module_dir it) (ascii ''.''))"
proof -
  have "sorted (map module_dir items)" using assms by (rule module_dirs_sorted)
  moreover have "module_dir it \<notin> EXCLUDE_DIRS \<and> \<not> startswith (module_dir it) (ascii ''.'')"
    if "it \<in> set items" for it
  proof -
    from list_modules_char[OF assms] that obtain children where
      "is_module (module_dir it, Dir children)" by blast
    then show ?thesis by simp
  qed
  ultimately show ?thesis by blast
qed

theorem list_modules_sorted_and_filtered_witness:
  "list_modules scenario_root =
     Inr [\<lparr>module_dir = ascii ''a'', module_title = ascii ''a'',
            notebooks = [ascii ''x.ipynb'', ascii ''y.ipynb'']\<rparr>,
          \<lparr>module_dir = ascii ''b'', module_title = ascii ''Project B'',
            notebooks = [ascii ''n.ipynb'']\<rparr>] \<and>
   sorted [ascii ''a'', ascii ''b''] \<and>
   ascii ''a'' \<notin> EXCLUDE_DIRS \<and> ascii ''b'' \<notin> EXCLUDE_DIRS \<and>
   \<not> startswith (ascii ''a'') (ascii ''.'') \<and> \<not> startswith (ascii ''b'') (ascii ''.'')"
  using list_modules_sorted_and_filtered[OF scenario_modules] scenario_modules
  by simp

text \<open>
  C6. A directory of the root that has no regular file with a name ending in
  \<open>.ipynb\<close> directly in it gets no entry.
\<close>

theorem no_notebooks_no_entry:
  assumes wf: "wf_listing root"
    and run: "list_modules root = Inr items"
    and dir: "(name, Dir children) \<in> set root"
    and none: "\<forall>(f, x)\<in>set children. is_file x \<longrightarrow> \<not> endswith f (ascii ''.ipynb'')"
  shows "name \<notin> set (map module_dir items)"
proof
  assume "name \<in> set (map module_dir items)"
  then obtain it where it: "it \<in> set items" "module_dir it = name" by auto
  with list_modules_char[OF run] obtain ch where
    ch: "(name, Dir ch) \<in> set root" "is_module (name, Dir ch)" by blast
  from wf ch(1) dir have "Dir ch = Dir children"
    using wf_listing_map_of by (metis option.inject)
  with ch(2) have nb: "ipynb_names children \<noteq> []" by simp
  from none have "filter (\<lambda>(n, x). endswith n (ascii ''.ipynb'') \<and> is_file x) children = []"
    by (auto simp add: filter_empty_conv)
  then have "ipynb_names children = []" by (simp add: ipynb_names_def)
  with nb show False by simp
qed

theorem no_notebooks_no_entry_witness:
  "wf_listing scenario_root \<and>
   (ascii ''docs'', Dir [(ascii ''notes.txt'', File [])]) \<in> set scenario_root \<and>
   \<not> endswith (ascii ''notes.txt'') (ascii ''.ipynb'') \<and>
   list_modules scenario_root =
     Inr [\<lparr>module_dir = ascii ''a'', module_title = ascii ''a'',
            notebooks = [ascii ''x.ipynb'', ascii ''y.ipynb'']\<rparr>,
          \<lparr>module_dir = ascii ''b'', module_title = ascii ''Project B'',
            notebooks = [ascii ''n.ipynb'']\<rparr>] \<and>
   ascii ''docs'' \<notin> set [ascii ''a'', ascii ''b'']"
proof -
  have dir: "(ascii ''docs'', Dir [(ascii ''notes.txt'', File [])]) \<in> set scenario_root"
    by (simp add: scenario_root_def)
  have e: "\<not> endswith (ascii ''notes.txt'') (ascii ''.ipynb'')"
    by (simp add: endswith_def suffix_to_prefix ascii_def)
  then have none: "\<forall>(f, x)\<in>set [(ascii ''notes.txt'', File [])].
      is_file x \<longrightarrow> \<not> endswith f (ascii ''.ipynb'')" by simp
  from no_notebooks_no_entry[OF scenario_wf scenario_modules dir none]
  have "ascii ''docs'' \<notin> set [ascii ''a'', ascii ''b'']" by simp
  with scenario_wf dir e scenario_modules show ?thesis by simp
qed

section \<open>Module titles\<close>

lemma module_title_cases:
  assumes wf: "wf_listing root"
    and run: "list_modules root = Inr items"
    and it: "it \<in> set items"
  shows "\<exists>children h1. map_of root (module_dir it) = Some (Dir children) \<and>
     module_dir it \<noteq> [] \<and>
     notebooks it = ipynb_names children \<and> ipynb_names children \<noteq> [] \<and>
     first_h1_from_readme (map_of children README_NAME) = Inr h1 \<and>
     module_title it = or_else h1 (module_dir it)"
proof -
  from list_modules_char[OF run] it obtain children h1 where
    c: "(module_dir it, Dir children) \<in> set root" "is_module (module_dir it, Dir children)"
      "notebooks it = ipynb_names children"
      "first_h1_from_readme (map_of children README_NAME) = Inr h1"
      "module_title it = or_else h1 (module_dir it)" by blast
  from wf c(1) have "map_of root (module_dir it) = Some (Dir children)"
    by (rule wf_listing_map_of)
  moreover from wf c(1) have "module_dir it \<noteq> []"
    by (metis wf_listing_def fst_conv image_eqI set_map)
  moreover from c(2) have "ipynb_names children \<noteq> []" by simp
  ultimately show ?thesis using c(3,4,5) by blast
qed

lemma first_h1_from_readme_file:
  "first_h1_from_readme (Some (File content)) =
     Inr (case find is_heading (splitlines (universal_newlines content)) of
            None \<Rightarrow> None
          | Some l \<Rightarrow> map_option strip (heading_of l))"
  by (simp add: first_h1_from_readme_def read_text_def first_h1_lines_find)

lemma blank_heading_lines:
  "splitlines (universal_newlines blank_heading_readme) = [ascii ''#  '', ascii ''# Real'']"
  by (simp add: blank_heading_readme_def splitlines_def is_linebreak_def ascii_def)

lemma blank_heading_capture: "heading_of (ascii ''#  '') = Some (ascii '' '')"
  by (simp add: heading_of_def H1_PATTERN_def re_eval)

lemma blank_heading_find:
  "find is_heading (splitlines (universal_newlines blank_heading_readme)) = Some (ascii ''#  '')"
  by (simp add: blank_heading_lines is_heading_def blank_heading_capture)

lemma strip_blank: "strip (ascii '' '') = []"
  by (simp add: strip_eval ascii_def)

text \<open>
  C7, as stated, fails: the first line of the README of \<open>m\<close> matches the heading
  pattern, the content it captures is one blank, which trims to the empty text, and the
  title of the entry is the directory name \<open>m\<close>, not that trimmed content (and not the
  content \<open>Real\<close> of the second line, the first one with text after the \<open>#\<close>).
\<close>

theorem title_of_blank_heading_counterexample:
  "list_modules blank_heading_root =
     Inr [\<lparr>module_dir = ascii ''m'', module_title = ascii ''m'',
            notebooks = [ascii ''a.ipynb'']\<rparr>] \<and>
   map_of blank_heading_root (ascii ''m'') =
     Some (Dir [(ascii ''a.ipynb'', File []), (README_NAME, File blank_heading_readme)]) \<and>
   find is_heading (splitlines (universal_newlines blank_heading_readme)) = Some (ascii ''#  '') \<and>
   heading_of (ascii ''#  '') = Some (ascii '' '') \<and>
   ascii ''m'' \<noteq> strip (ascii '' '') \<and>
   heading_of (ascii ''# Real'') = Some (ascii ''Real'') \<and>
   ascii ''m'' \<noteq> strip (ascii ''Real'')"
proof -
  have "map_of blank_heading_root (ascii ''m'') =
     Some (Dir [(ascii ''a.ipynb'', File []), (README_NAME, File blank_heading_readme)])"
    by (simp add: blank_heading_root_def)
  moreover have "ascii ''m'' \<noteq> strip (ascii '' '')"
    by (simp add: strip_blank) (simp add: ascii_def)
  moreover have "heading_of (ascii ''# Real'') = Some (ascii ''Real'')"
    by (simp add: heading_of_def H1_PATTERN_def re_eval)
  moreover have "ascii ''m'' \<noteq> strip (ascii ''Real'')"
    by (simp add: strip_eval ascii_def)
  ultimately show ?thesis
    using blank_heading_modules blank_heading_find blank_heading_capture by simp
qed

text \<open>
  C7, amended. For an entry of the result, with the directory it comes from: when the
  directory has no \<open>README.md\<close>, or no line of it matches the heading pattern, the
  title is the directory name; otherwise, with the content captured in the first
  matching line, the title is that content trimmed when this is not empty, and the
  directory name when it is empty.
\<close>

theorem module_title_rule:
  assumes wf: "wf_listing root"
    and run: "list_modules root = Inr items"
    and it: "it \<in> set items"
  shows "\<exists>children. map_of root (module_dir it) = Some (Dir children) \<and>
     (case map_of children README_NAME of
        None \<Rightarrow> module_title it = module_dir it
      | Some (Dir sub) \<Rightarrow> False
      | Some (File content) \<Rightarrow>
          (case find is_heading (splitlines (universal_newlines content)) of
             None \<Rightarrow> module_title it = module_dir it
           | Some l \<Rightarrow>
               \<exists>c. heading_of l = Some c \<and>
                   module_title it = (if strip c = [] then module_dir it else strip c)))"
proof -
  from module_title_cases[OF wf run it] obtain children h1 where
    m: "map_of root (module_dir it) = Some (Dir children)"
    and h: "first_h1_from_readme (map_of children README_NAME) = Inr h1"
    and t: "module_title it = or_else h1 (module_dir it)" by blast
  have "case map_of children README_NAME of
        None \<Rightarrow> module_title it = module_dir it
      | Some (Dir sub) \<Rightarrow> False
      | Some (File content) \<Rightarrow>
          (case find is_heading (splitlines (universal_newlines content)) of
             None \<Rightarrow> module_title it = module_dir it
           | Some l \<Rightarrow>
               \<exists>c. heading_of l = Some c \<and>
                   module_title it = (if strip c = [] then module_dir it else strip c))"
  proof (cases "map_of children README_NAME")
    case None
    with h t show ?thesis by (simp add: first_h1_from_readme_def or_else_def)
  next
    case (Some node)
    show ?thesis
    proof (cases node)
      case (Dir sub)
      with Some h show ?thesis by (simp add: first_h1_from_readme_def read_text_def)
    next
      case (File content)
      show ?thesis
      proof (cases "find is_heading (splitlines (universal_newlines content))")
        case None
        with Some File h t show ?thesis
          by (simp add: first_h1_from_readme_file or_else_def)
      next
        case found: (Some l)
        then obtain c where c: "heading_of l = Some c" using find_is_heading by blast
        with Some File found h have "h1 = Some (strip c)"
          by (simp add: first_h1_from_readme_file)
        with t have "module_title it = (if strip c = [] then module_dir it else strip c)"
          by (simp add: or_else_def truthy_def)
        with Some File found c show ?thesis by simp
      qed
    qed
  qed
  with m show ?thesis by blast
qed

theorem module_title_rule_witness:
  "wf_listing blank_heading_root \<and>
   list_modules blank_heading_root =
     Inr [\<lparr>module_dir = ascii ''m'', module_title = ascii ''m'',
            notebooks = [ascii ''a.ipynb'']\<rparr>] \<and>
   find is_heading (splitlines (universal_newlines blank_heading_readme)) = Some (ascii ''#  '') \<and>
   heading_of (ascii ''#  '') = Some (ascii '' '') \<and>
   ascii ''m'' = (if strip (ascii '' '') = [] then ascii ''m'' else strip (ascii '' ''))"
proof -
  let ?it = "\<lparr>module_dir = ascii ''m'', module_title = ascii ''m'',
            notebooks = [ascii ''a.ipynb'']\<rparr>"
  let ?children = "[(ascii ''a.ipynb'', File []), (README_NAME, File blank_heading_readme)]"
  have "?it \<in> set [?it]" by simp
  from module_title_rule[OF blank_heading_wf blank_heading_modules this]
  obtain children where
    m: "map_of blank_heading_root (module_dir ?it) = Some (Dir children)"
    and r: "case map_of children README_NAME of
        None \<Rightarrow> module_title ?it = module_dir ?it
      | Some (Dir sub) \<Rightarrow> False
      | Some (File content) \<Rightarrow>
          (case find is_heading (splitlines (universal_newlines content)) of
             None \<Rightarrow> module_title ?it = module_dir ?it
           | Some l \<Rightarrow>
               \<exists>c. heading_of l = Some c \<and>
                   module_title ?it = (if strip c = [] then module_dir ?it else strip c))"
    by blast
  from m have "children = ?children" by (simp add: blank_heading_root_def)
  moreover have "map_of ?children README_NAME = Some (File blank_heading_readme)"
    by (simp add: README_NAME_def ascii_def)
  ultimately obtain c where c: "heading_of (ascii ''#  '') = Some c"
    and t: "module_title ?it = (if strip c = [] then module_dir ?it else strip c)"
    using r by (auto simp add: blank_heading_find)
  from c have "c = ascii '' ''" by (simp add: blank_heading_capture)
  with t have "ascii ''m'' = (if strip (ascii '' '') = [] then ascii ''m'' else strip (ascii '' ''))"
    by (simp del: if_cancel cong: if_cong)
  with blank_heading_wf blank_heading_modules blank_heading_find blank_heading_capture
  show ?thesis by blast
qed

lemma or_else_nonempty: "y \<noteq> [] \<Longrightarrow> or_else x y \<noteq> []"
  by (simp add: or_else_def truthy_def split: option.splits)

text \<open>
  C10. In a root whose names are non-empty and pairwise different, every entry of the
  result has a non-empty directory name that no other entry has, a non-empty sorted
  list of notebooks, and a non-empty title; when the first heading line of the README
  captures only blanks, the extracted title is empty and the title of the entry is the
  directory name.
\<close>

theorem module_entry_invariant:
  assumes wf: "wf_listing root"
    and run: "list_modules root = Inr items"
  shows "distinct (map module_dir items) \<and>
     (\<forall>it\<in>set items.
        module_dir it \<noteq> [] \<and> notebooks it \<noteq> [] \<and> sorted (notebooks it) \<and>
        module_title it \<noteq> []) \<and>
     (\<forall>it\<in>set items. \<forall>children content l c.
        map_of root (module_dir it) = Some (Dir children) \<and>
        map_of children README_NAME = Some (File content) \<and>
        find is_heading (splitlines (universal_newlines content)) = Some l \<and>
        heading_of l = Some c \<and> strip c = [] \<longrightarrow>
        first_h1_from_readme (Some (File content)) = Inr (Some []) \<and>
        module_title it = module_dir it)"
proof (intro conjI ballI allI impI)
  from wf have "distinct (map fst root)" by (simp add: wf_listing_def)
  then show "distinct (map module_dir items)" using run by (rule module_dirs_distinct)
next
  fix it assume it: "it \<in> set items"
  from module_title_cases[OF wf run it] obtain children h1 where
    c: "module_dir it \<noteq> []" "notebooks it = ipynb_names children"
      "ipynb_names children \<noteq> []" "module_title it = or_else h1 (module_dir it)"
    by blast
  from c show "module_dir it \<noteq> []" by simp
  from c show "notebooks it \<noteq> []" by simp
  from c show "sorted (notebooks it)" by (simp add: ipynb_names_def)
  from c show "module_title it \<noteq> []" by (simp add: or_else_nonempty)
next
  fix it children content l c
  assume it: "it \<in> set items"
    and a: "map_of root (module_dir it) = Some (Dir children) \<and>
        map_of children README_NAME = Some (File content) \<and>
        find is_heading (splitlines (universal_newlines content)) = Some l \<and>
        heading_of l = Some c \<and> strip c = []"
  from a have h: "first_h1_from_readme (Some (File content)) = Inr (Some [])"
    by (simp add: first_h1_from_readme_file)
  from module_title_cases[OF wf run it] obtain ch h1 where
    c: "map_of root (module_dir it) = Some (Dir ch)"
      "first_h1_from_readme (map_of ch README_NAME) = Inr h1"
      "module_title it = or_else h1 (module_dir it)"
    by blast
  from c(1) a have "ch = children" by simp
  with c(2) a h have "h1 = Some []" by simp
  with c(3) have t: "module_title it = module_dir it" by (simp add: or_else_def truthy_def)
  from h show "first_h1_from_readme (Some (File content)) = Inr (Some [])" .
  from t show "module_title it = module_dir it" .
qed

theorem module_entry_invariant_witness:
  "wf_listing blank_heading_root \<and>
   list_modules blank_heading_root =
     Inr [\<lparr>module_dir = ascii ''m'', module_title = ascii ''m'',
            notebooks = [ascii ''a.ipynb'']\<rparr>] \<and>
   map_of blank_heading_root (ascii ''m'') =
     Some (Dir [(ascii ''a.ipynb'', File []), (README_NAME, File blank_heading_readme)]) \<and>
   map_of [(ascii ''a.ipynb'', File []), (README_NAME, File blank_heading_readme)] README_NAME =
     Some (File blank_heading_readme) \<and>
   find is_heading (splitlines (universal_newlines blank_heading_readme)) = Some (ascii ''#  '') \<and>
   heading_of (ascii ''#  '') = Some (ascii '' '') \<and>
   strip (ascii '' '') = [] \<and>
   first_h1_from_readme (Some (File blank_heading_readme)) = Inr (Some []) \<and>
   sorted [ascii ''a.ipynb''] \<and> ascii ''m'' \<noteq> []"
proof -
  let ?it = "\<lparr>module_dir = ascii ''m'', module_title = ascii ''m'',
            notebooks = [ascii ''a.ipynb'']\<rparr>"
  let ?children = "[(ascii ''a.ipynb'', File []), (README_NAME, File blank_heading_readme)]"
  note inv = module_entry_invariant[OF blank_heading_wf blank_heading_modules]
  have m: "map_of blank_heading_root (ascii ''m'') = Some (Dir ?children)"
    by (simp add: blank_heading_root_def)
  have r: "map_of ?children README_NAME = Some (File blank_heading_readme)"
    by (simp add: README_NAME_def ascii_def)
  from inv have "\<forall>it\<in>set [?it].
        module_dir it \<noteq> [] \<and> notebooks it \<noteq> [] \<and> sorted (notebooks it) \<and>
        module_title it \<noteq> []" by blast
  then have basic: "sorted [ascii ''a.ipynb''] \<and> ascii ''m'' \<noteq> []" by simp
  have mem: "?it \<in> set [?it]" by simp
  note x = inv[THEN conjunct2, THEN conjunct2, THEN bspec, OF mem, THEN spec, THEN spec,
      THEN spec, THEN spec, of ?children blank_heading_readme "ascii ''#  ''" "ascii '' ''"]
  have "module_dir ?it = ascii ''m''" by simp
  with x m r blank_heading_find blank_heading_capture strip_blank
  have "first_h1_from_readme (Some (File blank_heading_readme)) = Inr (Some [])"
    by (simp only: simp_thms)
  with m r basic blank_heading_wf blank_heading_modules blank_heading_find
    blank_heading_capture strip_blank
  show ?thesis by blast
qed

section \<open>A second run\<close>

lemma occurs_at_take_agree:
  assumes "take n s = take n s'" and "j + length sub \<le> n" and "n \<le> length s" and "n \<le> length s'"
  shows "occurs_at sub s j \<longleftrightarrow> occurs_at sub s' j"
proof -
  have "s ! (j + k) = s' ! (j + k)" if "k < length sub" for k
  proof -
    from that assms(2) have "j + k < n" by simp
    then have "s ! (j + k) = take n s ! (j + k)" "s' ! (j + k) = take n s' ! (j + k)" by simp_all
    with assms(1) show ?thesis by simp
  qed
  with assms(2,3,4) show ?thesis by (auto simp add: occurs_at_nth)
qed

lemma occurs_at_append_right:
  "occurs_at sub (xs @ ys) (length xs + k) \<longleftrightarrow> occurs_at sub ys k"
  by (simp add: occurs_at_def)

lemma occurs_at_append_left:
  "k + length sub \<le> length xs \<Longrightarrow> occurs_at sub (xs @ ys) k \<longleftrightarrow> occurs_at sub xs k"
  by (auto simp add: occurs_at_nth nth_append)

lemma occurs_atI: "occurs_at sub s k \<Longrightarrow> occurs sub s"
  by (auto simp add: occurs_def occurs_at_def)

text \<open>
  Substituting a block without END marker into the result of substituting it gives
  that result again.
\<close>

lemma replace_between_markers_idem:
  assumes b: "first_occurrence BEGIN_MARKER t b"
    and e: "first_occurrence END_MARKER t e"
    and le: "b + length BEGIN_MARKER \<le> e"
    and blk: "\<not> occurs END_MARKER blk"
  defines "out \<equiv> take (b + length BEGIN_MARKER) t @ [10] @ blk @ drop e t"
  shows "replace_between_markers out blk = Inr out"
proof -
  let ?L = "length BEGIN_MARKER"
  let ?P = "take (b + ?L) t"
  let ?S = "drop e t"
  from e have et: "e + length END_MARKER \<le> length t"
    by (simp add: first_occurrence_def occurs_at_nth)
  from e have eS: "prefix END_MARKER ?S"
    by (simp add: first_occurrence_def occurs_at_def)
  from le et have lenP: "length ?P = b + ?L" by simp
  have takeP: "take (b + ?L) out = take (b + ?L) t" using lenP by (simp add: out_def)
  have len_out: "b + ?L \<le> length out" using lenP by (simp add: out_def)
  have len_t: "b + ?L \<le> length t" using le et by simp
  have agree: "occurs_at sub out j \<longleftrightarrow> occurs_at sub t j" if "j + length sub \<le> b + ?L" for sub j
    using occurs_at_take_agree[OF takeP that len_out len_t] .
  have b_out: "first_occurrence BEGIN_MARKER out b"
  proof -
    from b have "occurs_at BEGIN_MARKER t b" and "\<forall>j\<in>{0..<b}. \<not> occurs_at BEGIN_MARKER t j"
      by (simp_all add: first_occurrence_def)
    then have "occurs_at BEGIN_MARKER out b" and "\<forall>j\<in>{0..<b}. \<not> occurs_at BEGIN_MARKER out j"
      using agree[of b BEGIN_MARKER] agree[of _ BEGIN_MARKER] by simp_all
    then show ?thesis by (simp add: first_occurrence_def)
  qed
  let ?e' = "b + ?L + 1 + length blk"
  have out_split: "out = (?P @ [10] @ blk) @ ?S" by (simp add: out_def)
  have len_pre: "length (?P @ [10] @ blk) = ?e'" using lenP by simp
  have e_at: "occurs_at END_MARKER out ?e'"
  proof -
    have "occurs_at END_MARKER ((?P @ [10] @ blk) @ ?S) (length (?P @ [10] @ blk) + 0)"
      unfolding occurs_at_append_right using eS by (simp add: occurs_at_def)
    then show ?thesis using len_pre out_split by simp
  qed
  have e_first: "\<not> occurs_at END_MARKER out j" if j: "j < ?e'" for j
  proof
    assume o: "occurs_at END_MARKER out j"
    consider (inside) "j + length END_MARKER \<le> b + ?L"
      | (overlap) "j < b + ?L" "b + ?L < j + length END_MARKER"
      | (newline) "j = b + ?L"
      | (block) "b + ?L < j" by linarith
    then show False
    proof cases
      case inside
      with o have "occurs_at END_MARKER t j" using agree by simp
      moreover from inside le have "j < e"
        by (simp add: END_MARKER_length)
      ultimately show False using e by (simp add: first_occurrence_def)
    next
      case overlap
      from overlap(2) have "b \<le> j" by (simp add: BEGIN_MARKER_length END_MARKER_length)
      moreover from b_out have "occurs_at BEGIN_MARKER out b" by (simp add: first_occurrence_def)
      ultimately show False using markers_no_overlap[of out b j] o overlap(1) by simp
    next
      case newline
      from o have "out ! (j + 0) = END_MARKER ! 0"
        unfolding occurs_at_nth using END_MARKER_length by (metis zero_less_numeral)
      moreover have "out ! j = 10" using newline lenP by (simp add: out_def nth_append)
      ultimately show False by (simp add: END_MARKER_hd)
    next
      case block
      define k where "k = j - (b + ?L + 1)"
      from block j have k: "j = length (?P @ [10]) + k" "k < length blk"
        using lenP by (simp_all add: k_def)
      have "out = (?P @ [10]) @ (blk @ ?S)" by (simp add: out_def)
      with o k(1) have ob: "occurs_at END_MARKER (blk @ ?S) k"
        using occurs_at_append_right[of END_MARKER "?P @ [10]" "blk @ ?S" k] by simp
      show False
      proof (cases "k + length END_MARKER \<le> length blk")
        case True
        with ob have "occurs_at END_MARKER blk k" by (simp add: occurs_at_append_left)
        then show False using blk occurs_atI by blast
      next
        case False
        define i where "i = length blk - k"
        from False k(2) have i: "0 < i" "i < length END_MARKER" "k + i = length blk"
          by (simp_all add: i_def)
        from ob i(2) have "(blk @ ?S) ! (k + i) = END_MARKER ! i"
          by (simp add: occurs_at_nth)
        moreover from eS have "?S ! 0 = END_MARKER ! 0"
          by (metis END_MARKER_length nth_append prefix_def zero_less_numeral)
        ultimately have "END_MARKER ! i = 60"
          using i(3) by (simp add: nth_append END_MARKER_hd)
        with i(1,2) show False using END_MARKER_lt[of i] by simp
      qed
    qed
  qed
  have e_out: "first_occurrence END_MARKER out ?e'"
    using e_at e_first by (simp add: first_occurrence_def)
  have "take (b + ?L) out @ [10] @ blk @ drop ?e' out = out"
  proof -
    have "drop ?e' out = ?S" using len_pre out_split by (metis append_eq_conv_conj)
    with takeP show ?thesis by (simp add: out_def)
  qed
  with replace_between_markers_present[OF b_out e_out, of blk] show ?thesis by simp
qed

lemma insort_key_map_fst:
  assumes "\<And>p. fst (f p) = fst p"
  shows "insort_key fst (f x) (map f ys) = map f (insort_key fst x ys)"
  by (induction ys) (simp_all add: assms)

lemma sort_key_map_fst:
  assumes "\<And>p. fst (f p) = fst p"
  shows "sort_key fst (map f xs) = map f (sort_key fst xs)"
  by (induction xs) (simp_all add: insort_key_map_fst[OF assms])

lemma list_modules_loop_rewrite_file:
  "list_modules_loop
     (map (\<lambda>(n, x). if n = name \<and> is_file x then (n, File text) else (n, x)) ps) acc =
   list_modules_loop ps acc"
  by (induction ps acc rule: list_modules_loop.induct) (simp_all split: sum.splits)

lemma list_modules_rewrite_file:
  "list_modules (map (\<lambda>(n, x). if n = name \<and> is_file x then (n, File text) else (n, x)) root) =
   list_modules root"
proof -
  have "fst ((\<lambda>(n, x). if n = name \<and> is_file x then (n, File text) else (n, x)) p) = fst p" for p
    by (cases p) simp
  then show ?thesis
    by (simp add: list_modules_def sort_key_map_fst list_modules_loop_rewrite_file)
qed

lemma map_of_rewrite_file:
  "map_of root name = Some (File old) \<Longrightarrow>
   map_of (map (\<lambda>(n, x). if n = name \<and> is_file x then (n, File text) else (n, x)) root) name =
     Some (File text)"
  by (induction root) (auto split: if_splits)

lemma write_text_file:
  "map_of root name = Some (File old) \<Longrightarrow>
   write_text name text root =
     Inr (map (\<lambda>(n, x). if n = name \<and> is_file x then (n, File text) else (n, x)) root)"
  by (simp add: write_text_def)

lemma universal_newlines_no_cr: "13 \<notin> set (universal_newlines s)"
  by (induction s rule: universal_newlines.induct) auto

lemma universal_newlines_id: "13 \<notin> set s \<Longrightarrow> universal_newlines s = s"
  by (induction s rule: universal_newlines.induct) auto

lemma detect_github_repo_depends:
  assumes "environ w' = environ w" and "git_stdout w' = git_stdout w"
  shows "fst (detect_github_repo w') = fst (detect_github_repo w)"
  using assms
  by (simp add: detect_github_repo_def getenv_def run_git_def Let_def split: prod.splits)

lemma main_run:
  assumes readme: "map_of (fs_root w) README_NAME = Some (File content)"
    and d: "detect_github_repo w = (repo, wd)"
    and items: "list_modules (fs_root w) = Inr items"
    and r: "replace_between_markers (universal_newlines content)
              (render_list (now_utc w) items repo) = Inr updated"
  shows "main w =
     (if updated = universal_newlines content then (Inr (), print Msg_NoUpdateNeeded wd)
      else if \<not> truthy_opt repo then
        (Inr (), print Msg_NoteSetRepo (print Msg_Updated
           (wd\<lparr>fs_root := map (\<lambda>(n, x). if n = README_NAME \<and> is_file x
                                    then (n, File updated) else (n, x)) (fs_root w)\<rparr>)))
      else
        (Inr (), print Msg_Updated
           (wd\<lparr>fs_root := map (\<lambda>(n, x). if n = README_NAME \<and> is_file x
                                    then (n, File updated) else (n, x)) (fs_root w)\<rparr>)))"
proof -
  from detect_github_repo_frame[OF d] have fr: "fs_root wd = fs_root w" "now_utc wd = now_utc w"
    by simp_all
  from readme have wt: "write_text README_NAME updated (fs_root w) =
      Inr (map (\<lambda>(n, x). if n = README_NAME \<and> is_file x
                                    then (n, File updated) else (n, x)) (fs_root w))"
    by (simp add: write_text_file)
  show ?thesis
    unfolding main_def
    by (simp add: readme d fr items r wt read_text_def Let_def)
qed

lemma main_success:
  assumes "main w = (Inr (), w1)"
  obtains content repo wd items updated where
    "map_of (fs_root w) README_NAME = Some (File content)"
    "detect_github_repo w = (repo, wd)"
    "list_modules (fs_root w) = Inr items"
    "replace_between_markers (universal_newlines content)
       (render_list (now_utc w) items repo) = Inr updated"
proof -
  obtain repo wd where d: "detect_github_repo w = (repo, wd)"
    by (cases "detect_github_repo w")
  from detect_github_repo_frame[OF d] have fr: "fs_root wd = fs_root w" "now_utc wd = now_utc w"
    by simp_all
  from assms obtain node where node: "map_of (fs_root w) README_NAME = Some node"
    by (cases "map_of (fs_root w) README_NAME") (simp_all add: main_def)
  from assms node d fr obtain items where items: "list_modules (fs_root w) = Inr items"
    by (cases "list_modules (fs_root w)") (simp_all add: main_def)
  from assms node d fr items obtain content where content: "node = File content"
    by (cases node) (simp_all add: main_def read_text_def Let_def)
  from assms node d fr items content obtain updated where
    "replace_between_markers (universal_newlines content)
       (render_list (now_utc w) items repo) = Inr updated"
    by (cases "replace_between_markers (universal_newlines content)
       (render_list (now_utc w) items repo)") (simp_all add: main_def read_text_def Let_def)
  with node content d items that show thesis by blast
qed

lemma print_frame:
  "fs_root (print l w) = fs_root w" "environ (print l w) = environ w"
  "git_stdout (print l w) = git_stdout w" "now_utc (print l w) = now_utc w"
  "console (print l w) = console w @ [l]"
  by (simp_all add: print_def)

text \<open>
  C3, amended. After a successful run, a second run in the world the first one left
  (same clock, same environment, same git answer) finds the same identifier and the same
  modules, and when the rendered block contains neither the END marker nor a carriage
  return it computes the text that is in the README: it prints that no update is needed
  and leaves the files as they are.
\<close>

theorem second_run_is_noop:
  assumes first: "main w = (Inr (), w1)"
    and d: "detect_github_repo w = (repo, wd)"
    and items: "list_modules (fs_root w) = Inr items"
    and no_end: "\<not> occurs END_MARKER (render_list (now_utc w) items repo)"
    and no_cr: "13 \<notin> set (render_list (now_utc w) items repo)"
  shows "now_utc w1 = now_utc w \<and>
         fst (detect_github_repo w1) = repo \<and>
         list_modules (fs_root w1) = Inr items \<and>
         (\<exists>w2. main w1 = (Inr (), w2) \<and> fs_root w2 = fs_root w1 \<and>
               console w2 = console w1 @ [Msg_NoUpdateNeeded])"
proof -
  let ?blk = "render_list (now_utc w) items repo"
  from first obtain content repo' wd' items' updated where
    readme: "map_of (fs_root w) README_NAME = Some (File content)"
    and d': "detect_github_repo w = (repo', wd')"
    and items': "list_modules (fs_root w) = Inr items'"
    and r': "replace_between_markers (universal_newlines content)
       (render_list (now_utc w) items' repo') = Inr updated"
    by (rule main_success)
  from d d' items items' r' have
    r: "replace_between_markers (universal_newlines content) ?blk = Inr updated" by simp
  let ?t = "universal_newlines content"
  let ?f = "\<lambda>(n, x). if n = README_NAME \<and> is_file x then (n, File updated) else (n, x)"
  from detect_github_repo_frame[OF d] have fr:
    "fs_root wd = fs_root w" "environ wd = environ w" "git_stdout wd = git_stdout w"
    "now_utc wd = now_utc w" by simp_all
  note run1 = main_run[OF readme d items r]
  \<comment> \<open>what the first run leaves\<close>
  have w1: "environ w1 = environ w \<and> git_stdout w1 = git_stdout w \<and> now_utc w1 = now_utc w \<and>
      (if updated = ?t then fs_root w1 = fs_root w else fs_root w1 = map ?f (fs_root w))"
    using first run1 fr by (auto simp add: print_frame split: if_splits)
  then have env: "environ w1 = environ w" and git: "git_stdout w1 = git_stdout w"
    and now: "now_utc w1 = now_utc w" by simp_all
  from env git have repo1: "fst (detect_github_repo w1) = repo"
    using detect_github_repo_depends[of w1 w] d by simp
  then obtain wd1 where d1: "detect_github_repo w1 = (repo, wd1)"
    by (cases "detect_github_repo w1") simp
  have items1: "list_modules (fs_root w1) = Inr items"
    using w1 items by (simp add: list_modules_rewrite_file split: if_splits)
  \<comment> \<open>the text the second run reads, and what it computes from it\<close>
  have "\<exists>content1. map_of (fs_root w1) README_NAME = Some (File content1) \<and>
      replace_between_markers (universal_newlines content1) ?blk =
        Inr (universal_newlines content1)"
  proof (cases "updated = ?t")
    case True
    with w1 readme r show ?thesis by auto
  next
    case False
    with w1 readme have look: "map_of (fs_root w1) README_NAME = Some (File updated)"
      by (simp add: map_of_rewrite_file)
    from replace_between_markers_cases[of ?t ?blk] r obtain b e where
      b: "first_occurrence BEGIN_MARKER ?t b" and e: "first_occurrence END_MARKER ?t e"
      and le: "b + length BEGIN_MARKER \<le> e"
      and upd: "updated = take (b + length BEGIN_MARKER) ?t @ [10] @ ?blk @ drop e ?t"
      by auto
    have "13 \<notin> set (take (b + length BEGIN_MARKER) ?t)" "13 \<notin> set (drop e ?t)"
      using universal_newlines_no_cr[of content]
      by (meson in_set_takeD, meson in_set_dropD)
    with no_cr upd have "13 \<notin> set updated" by simp
    then have un: "universal_newlines updated = updated" by (rule universal_newlines_id)
    from replace_between_markers_idem[OF b e le no_end] upd
    have "replace_between_markers updated ?blk = Inr updated" by simp
    with look un show ?thesis by simp
  qed
  then obtain content1 where look1: "map_of (fs_root w1) README_NAME = Some (File content1)"
    and r1: "replace_between_markers (universal_newlines content1)
        (render_list (now_utc w1) items repo) = Inr (universal_newlines content1)"
    using now by auto
  from main_run[OF look1 d1 items1 r1]
  have "main w1 = (Inr (), print Msg_NoUpdateNeeded wd1)" by simp
  moreover from detect_github_repo_frame[OF d1]
  have "fs_root wd1 = fs_root w1" "console wd1 = console w1" by simp_all
  ultimately have "\<exists>w2. main w1 = (Inr (), w2) \<and> fs_root w2 = fs_root w1 \<and>
               console w2 = console w1 @ [Msg_NoUpdateNeeded]"
    by (simp add: print_frame)
  with now repo1 items1 show ?thesis by blast
qed

lemma scenario_detect:
  "detect_github_repo scenario_world = (Some (ascii ''acme/widgets''), scenario_world)"
  by (simp add: detect_github_repo_def scenario_world_def world_of_def getenv_def truthy_def
      strip_eval ascii_def Let_def)

lemma scenario_world_items: "list_modules (fs_root scenario_world) = Inr scenario_items"
  using scenario_modules by (simp add: scenario_world_def world_of_def scenario_items_def)

lemma scenario_block_text:
  "scenario_block =
     UPDATED_PREFIX @ ascii ''2024-01-01 00:00:00Z'' @ [10, 10] @
     ascii ''- **[a](./a/)**'' @ [10] @
     ascii ''  - [x.ipynb](https://colab.research.google.com/github/acme/widgets/blob/main/a/x.ipynb)'' @ [10] @
     ascii ''  - [y.ipynb](https://colab.research.google.com/github/acme/widgets/blob/main/a/y.ipynb)'' @ [10, 10] @
     ascii ''- **[Project B](./b/)**'' @ [10] @
     ascii ''  - [n.ipynb](https://colab.research.google.com/github/acme/widgets/blob/main/b/n.ipynb)'' @ [10]"
  by (simp add: scenario_block_def scenario_world_def world_of_def scenario_items_def
      render_list_def colab_link_def truthy_opt_def truthy_def or_else_def UPDATED_PREFIX_def
      rstrip_def is_space_def ascii_def Let_def)

lemma scenario_block_no_end: "\<not> occurs END_MARKER scenario_block"
  unfolding str_contains_occurs[symmetric] scenario_block_text
  by (simp add: END_MARKER_def UPDATED_PREFIX_def ascii_def)

lemma scenario_block_no_cr: "13 \<notin> set scenario_block"
  unfolding scenario_block_text
  by (simp add: UPDATED_PREFIX_def ascii_def)

lemma scenario_first_run: "fst (main scenario_world) = Inr ()"
proof -
  have look: "map_of (fs_root scenario_world) README_NAME = Some (File example_readme)"
    by (simp add: scenario_world_def world_of_def scenario_root_def README_NAME_def ascii_def)
  have "13 \<notin> set example_readme"
    by (simp add: example_readme_def BEGIN_MARKER_def END_MARKER_def ascii_def)
  then have un: "universal_newlines example_readme = example_readme"
    by (rule universal_newlines_id)
  have "\<not> 44 < 4 + length BEGIN_MARKER" by (simp add: BEGIN_MARKER_length)
  with replace_between_markers_present[OF example_readme_begin example_readme_end]
  have "replace_between_markers (universal_newlines example_readme)
          (render_list (now_utc scenario_world) scenario_items (Some (ascii ''acme/widgets''))) =
        Inr (take (4 + length BEGIN_MARKER) example_readme @ [10] @
             render_list (now_utc scenario_world) scenario_items (Some (ascii ''acme/widgets'')) @
             drop 44 example_readme)"
    by (simp add: un)
  from main_run[OF look scenario_detect scenario_world_items this]
  show ?thesis by (simp split: if_splits)
qed

theorem second_run_is_noop_witness:
  "fst (main scenario_world) = Inr () \<and>
   detect_github_repo scenario_world = (Some (ascii ''acme/widgets''), scenario_world) \<and>
   list_modules (fs_root scenario_world) = Inr scenario_items \<and>
   \<not> occurs END_MARKER scenario_block \<and>
   13 \<notin> set scenario_block \<and>
   now_utc (snd (main scenario_world)) = now_utc scenario_world \<and>
   (\<exists>w2. main (snd (main scenario_world)) = (Inr (), w2) \<and>
         fs_root w2 = fs_root (snd (main scenario_world)) \<and>
         console w2 = console (snd (main scenario_world)) @ [Msg_NoUpdateNeeded])"
proof -
  have first: "main scenario_world = (Inr (), snd (main scenario_world))"
    using scenario_first_run by (metis prod.collapse)
  have no_end: "\<not> occurs END_MARKER
      (render_list (now_utc scenario_world) scenario_items (Some (ascii ''acme/widgets'')))"
    using scenario_block_no_end by (simp add: scenario_block_def)
  have no_cr: "13 \<notin> set
      (render_list (now_utc scenario_world) scenario_items (Some (ascii ''acme/widgets'')))"
    using scenario_block_no_cr by (simp add: scenario_block_def)
  from second_run_is_noop[OF first scenario_detect scenario_world_items no_end no_cr]
  show ?thesis
    using scenario_first_run scenario_detect scenario_world_items scenario_block_no_end
      scenario_block_no_cr by blast
qed

lemmas main_eval = main_def world_of_def detect_github_repo_def getenv_def run_git_def
  truthy_opt_def GIT_REMOTE_ARGS_def render_list_def colab_link_def UPDATED_PREFIX_def
  FALLBACK_NOTE_def NO_NOTEBOOKS_LINE_def replace_between_markers_def BEGIN_MARKER_def
  END_MARKER_def write_text_def print_def Let_def

lemma end_title_first_run: "main end_title_world = (Inr (), end_title_after_first)"
  by (simp add: end_title_world_def end_title_root_def end_title_after_first_def
      end_title_block_def main_eval fs_eval)

lemma end_title_second_run: "main end_title_after_first = (Inr (), end_title_after_second)"
  by (simp add: end_title_after_first_def end_title_after_second_def
      end_title_block_def main_eval fs_eval)

text \<open>
  C3, as stated, fails: in a repository whose module README has the END marker as its
  heading, the first run writes the README, and the second run, with the same clock,
  environment and files otherwise, does not find it up to date: it writes a different,
  longer text.
\<close>

theorem second_run_rewrites_counterexample:
  "main end_title_world = (Inr (), end_title_after_first) \<and>
   main end_title_after_first = (Inr (), end_title_after_second) \<and>
   now_utc end_title_after_first = now_utc end_title_world \<and>
   environ end_title_after_first = environ end_title_world \<and>
   git_stdout end_title_after_first = git_stdout end_title_world \<and>
   fs_root end_title_after_second \<noteq> fs_root end_title_after_first"
proof -
  have "now_utc end_title_after_first = now_utc end_title_world"
    "environ end_title_after_first = environ end_title_world"
    "git_stdout end_title_after_first = git_stdout end_title_world"
    by (simp_all add: end_title_after_first_def end_title_world_def world_of_def)
  moreover have "fs_root end_title_after_second \<noteq> fs_root end_title_after_first"
    by (simp add: end_title_after_first_def end_title_after_second_def)
  ultimately show ?thesis using end_title_first_run end_title_second_run by simp
qed

text \<open>
  The condition on carriage returns is needed as well: a block with a carriage return is
  read back with a newline in its place, so the second run sees a difference and writes
  the same text again.
\<close>

lemma second_run_writes_again_with_carriage_return:
  "main cr_world = (Inr (), cr_after_first) \<and>
   main cr_after_first = (Inr (), cr_after_first\<lparr>console := [Msg_Updated, Msg_Updated]\<rparr>)"
proof -
  have "main cr_world = (Inr (), cr_after_first)"
    by (simp add: cr_world_def cr_after_first_def cr_block_def main_eval fs_eval)
  moreover have
    "main cr_after_first = (Inr (), cr_after_first\<lparr>console := [Msg_Updated, Msg_Updated]\<rparr>)"
    by (simp add: cr_world_def cr_after_first_def cr_block_def main_eval fs_eval)
  ultimately show ?thesis by simp
qed

end
